theory Spec2Isabelle
  imports Main "HOL-Library.Word"
begin

unbundle bit_operations_syntax

section \<open>Machine types\<close>

text \<open>
  The kernel is built for i386: \<open>uint32_t\<close>, \<open>size_t\<close> and \<open>uintptr_t\<close> are all 32-bit
  unsigned integers (\<open>include/libc/stdint.h\<close>), \<open>uint64_t\<close> is 64 bits wide. Arithmetic on
  words wraps around as the C arithmetic on unsigned integers does.
\<close>

type_synonym u8 = "8 word"
type_synonym u16 = "16 word"
type_synonym u32 = "32 word"
type_synonym u64 = "64 word"

section \<open>Boot-info parser: \<open>find_largest_memory_area\<close> (kernel.c)\<close>

text \<open>
  One entry of the Multiboot2 memory map (\<open>multiboot_memory_map_t\<close>): a 64-bit base address,
  a 64-bit length and a 32-bit type. \<open>MULTIBOOT_MEMORY_AVAILABLE\<close> is 1 (spec, section 6).
  The memory map is the list of the entries that the pointer walk of the source visits, in
  the order of the walk.
\<close>

record multiboot_mmap_entry =
  addr :: u64
  len :: u64
  type :: u32

definition MULTIBOOT_MEMORY_AVAILABLE :: u32 where
  "MULTIBOOT_MEMORY_AVAILABLE = 1"

text \<open>
  The body of the \<open>while\<close> loop of \<open>find_largest_memory_area\<close>, for one entry: the new values
  of \<open>best_base\<close> and \<open>best_size\<close>. \<open>kernel_image_end_phys\<close> is the global of that name (the
  address of the linker symbol \<open>end\<close>). The cast \<open>(uintptr_t)mmap_entry->addr\<close> keeps the low
  32 bits; \<open>entry_phys_start + entry_len\<close> is a 64-bit sum; \<open>kernel_image_end_phys -
  usable_start\<close> is a 32-bit difference widened to 64 bits.
\<close>

definition mmap_entry_step :: "u32 \<Rightarrow> multiboot_mmap_entry \<Rightarrow> u32 \<times> u64 \<Rightarrow> u32 \<times> u64" where
  "mmap_entry_step kernel_image_end_phys e best =
     (if type e = MULTIBOOT_MEMORY_AVAILABLE \<and> addr e \<ge> 0x100000 then
        let entry_phys_start = (ucast (addr e) :: u32);
            adjusted =
              (if entry_phys_start < kernel_image_end_phys then
                 (if (ucast entry_phys_start :: u64) + len e > ucast kernel_image_end_phys then
                    (kernel_image_end_phys,
                     len e - ucast (kernel_image_end_phys - entry_phys_start))
                  else (entry_phys_start, 0))
               else (entry_phys_start, len e))
        in (if snd adjusted > snd best then adjusted else best)
      else best)"

fun mmap_walk :: "u32 \<Rightarrow> multiboot_mmap_entry list \<Rightarrow> u32 \<times> u64 \<Rightarrow> u32 \<times> u64" where
  "mmap_walk kernel_image_end_phys [] best = best"
| "mmap_walk kernel_image_end_phys (e # es) best =
     mmap_walk kernel_image_end_phys es (mmap_entry_step kernel_image_end_phys e best)"

text \<open>
  \<open>find_largest_memory_area\<close>: \<open>None\<close> is the return value \<open>false\<close>; \<open>Some (base, size)\<close> is
  \<open>true\<close> with the two output parameters. The size is truncated to \<open>size_t\<close>.
\<close>

definition find_largest_memory_area :: "u32 \<Rightarrow> multiboot_mmap_entry list \<Rightarrow> (u32 \<times> u32) option" where
  "find_largest_memory_area kernel_image_end_phys entries =
     (let best = mmap_walk kernel_image_end_phys entries (0, 0)
      in if snd best > 0 then Some (fst best, ucast (snd best)) else None)"

text \<open>
  The specification's description, on unbounded numbers: an entry is considered when it is
  AVAILABLE and starts at or above 1 MiB; what remains of it after the part below the end of
  the kernel image is cut off starts at the larger of the two addresses.
\<close>

definition spec_considered :: "multiboot_mmap_entry \<Rightarrow> bool" where
  "spec_considered e \<longleftrightarrow> type e = 1 \<and> 0x100000 \<le> unat (addr e)"

definition spec_trim :: "nat \<Rightarrow> multiboot_mmap_entry \<Rightarrow> nat \<times> nat" where
  "spec_trim kend e =
     (max (unat (addr e)) kend, (unat (addr e) + unat (len e)) - max (unat (addr e)) kend)"

definition spec_regions :: "nat \<Rightarrow> multiboot_mmap_entry list \<Rightarrow> (nat \<times> nat) list" where
  "spec_regions kend es = map (spec_trim kend) (filter spec_considered es)"

text \<open>
  The claim about the result: failure when nothing remains of any considered entry; otherwise
  the base and size returned are those of a remaining region, and no remaining region is
  larger.
\<close>

definition largest_region_claim :: "u32 \<Rightarrow> multiboot_mmap_entry list \<Rightarrow> bool" where
  "largest_region_claim kend es \<longleftrightarrow>
     (case find_largest_memory_area kend es of
        None \<Rightarrow> (\<forall>r \<in> set (spec_regions (unat kend) es). snd r = 0)
      | Some (b, n) \<Rightarrow>
          0 < unat n \<and> (unat b, unat n) \<in> set (spec_regions (unat kend) es) \<and>
          (\<forall>r \<in> set (spec_regions (unat kend) es). snd r \<le> unat n))"

text \<open>The entries of a map fit the 32-bit physical address space.\<close>

definition fits_32bit :: "multiboot_mmap_entry list \<Rightarrow> bool" where
  "fits_32bit es \<longleftrightarrow> (\<forall>e \<in> set es. spec_considered e \<longrightarrow> unat (addr e) + unat (len e) \<le> 2 ^ 32)"


text \<open>
  Two notions used in the proofs about \<open>find_largest_memory_area\<close>: the adjusted start and
  length that the loop body computes for a considered entry, and the invariant of the walk
  (the best length fits 32 bits, bounds every region seen so far and, when positive, belongs
  to a region seen so far).
\<close>

definition adjusted :: "u32 \<Rightarrow> multiboot_mmap_entry \<Rightarrow> u32 \<times> u64" where
  "adjusted kend e =
     (let eps = (ucast (addr e) :: u32)
      in (if eps < kend then
            (if (ucast eps :: u64) + len e > ucast kend then (kend, len e - ucast (kend - eps))
             else (eps, 0))
          else (eps, len e)))"

definition best_inv :: "(nat \<times> nat) set \<Rightarrow> u32 \<times> u64 \<Rightarrow> bool" where
  "best_inv S best \<longleftrightarrow>
     unat (snd best) < 2 ^ 32 \<and> (\<forall>r\<in>S. snd r \<le> unat (snd best)) \<and>
     (0 < unat (snd best) \<longrightarrow> (unat (fst best), unat (snd best)) \<in> S)"


section \<open>Constants of the memory and process core\<close>

text \<open>From \<open>include/paging.h\<close> and the head of \<open>src/process.c\<close>.\<close>

definition PAGE_SIZE :: u32 where "PAGE_SIZE = 4096"
definition PAGE_PRESENT :: u32 where "PAGE_PRESENT = 0x001"
definition PAGE_RW :: u32 where "PAGE_RW = 0x002"
definition PAGE_USER :: u32 where "PAGE_USER = 0x004"
definition PAGE_PWT :: u32 where "PAGE_PWT = 0x008"
definition PAGE_PCD :: u32 where "PAGE_PCD = 0x010"
definition PAGE_SIZE_4MB :: u32 where "PAGE_SIZE_4MB = 0x080"
definition PAGE_NX_BIT :: u32 where "PAGE_NX_BIT = 0x200"
definition PTE_KERNEL_DATA_FLAGS :: u32 where
  "PTE_KERNEL_DATA_FLAGS = PAGE_PRESENT OR PAGE_RW OR PAGE_NX_BIT"
definition PTE_USER_DATA_FLAGS :: u32 where
  "PTE_USER_DATA_FLAGS = PAGE_PRESENT OR PAGE_RW OR PAGE_USER OR PAGE_NX_BIT"
definition PDE_FLAGS_FROM_PTE :: "u32 \<Rightarrow> u32" where
  "PDE_FLAGS_FROM_PTE pte_flags =
     pte_flags AND (PAGE_PRESENT OR PAGE_RW OR PAGE_USER OR PAGE_PWT OR PAGE_PCD)"
definition PAGING_ADDR_MASK :: u32 where "PAGING_ADDR_MASK = 0xFFFFF000"
definition PAGING_PDE_ADDR_MASK_4MB :: u32 where "PAGING_PDE_ADDR_MASK_4MB = 0xFFC00000"
definition PDE_INDEX :: "u32 \<Rightarrow> u32" where "PDE_INDEX a = drop_bit 22 a AND 0x3FF"
definition PTE_INDEX :: "u32 \<Rightarrow> u32" where "PTE_INDEX a = drop_bit 12 a AND 0x3FF"
definition KERNEL_PDE_INDEX :: u32 where "KERNEL_PDE_INDEX = PDE_INDEX 0xC0000000"
definition PAGE_ALIGN_DOWN :: "u32 \<Rightarrow> u32" where
  "PAGE_ALIGN_DOWN a = a AND NOT (PAGE_SIZE - 1)"
definition RECURSIVE_PDE_INDEX :: u32 where "RECURSIVE_PDE_INDEX = 1023"
definition PAGING_TEMP_VADDR :: u32 where "PAGING_TEMP_VADDR = 0xFFBFF000"
definition KERNEL_VIRT_BASE :: u32 where "KERNEL_VIRT_BASE = 0xC0000000"
definition KERNEL_STACK_VIRT_START :: u32 where "KERNEL_STACK_VIRT_START = 0xE0000000"
definition KERNEL_STACK_VIRT_END :: u32 where "KERNEL_STACK_VIRT_END = 0xF0000000"
definition USER_EFLAGS_DEFAULT :: u32 where "USER_EFLAGS_DEFAULT = 0x202"
definition UINTPTR_MAX :: u32 where "UINTPTR_MAX = 0xFFFFFFFF"

text \<open>
  Modelled from the spec: \<open>ALIGN_UP\<close> of \<open>kmalloc_internal.h\<close>, which \<open>PAGE_ALIGN_UP\<close> of
  \<open>paging.h\<close> expands to, is not under src. It is taken to round up as the sibling macro
  \<open>PAGE_LARGE_ALIGN_UP\<close> of \<open>paging.h\<close> and the heap alignment of \<open>kernel.c\<close> do: add the
  size less one, then clear the low bits.
\<close>

definition PAGE_ALIGN_UP :: "u32 \<Rightarrow> u32" where
  "PAGE_ALIGN_UP a = (a + (PAGE_SIZE - 1)) AND NOT (PAGE_SIZE - 1)"

text \<open>
  The constants of \<open>process.h\<close> and \<open>gdt.h\<close> are not under src; the functions take them as
  a parameter.
\<close>

record config =
  PROCESS_KSTACK_SIZE :: u32
  USER_STACK_TOP_VIRT_ADDR :: u32
  USER_STACK_BOTTOM_VIRT :: u32
  GDT_USER_CODE_SELECTOR :: u32
  GDT_USER_DATA_SELECTOR :: u32

section \<open>ELF32 images\<close>

text \<open>
  Modelled from the spec: \<open>elf.h\<close> is not under src. The spec names the format (ELF32,
  little-endian, i386); the structures \<open>Elf32_Ehdr\<close> (52 bytes) and \<open>Elf32_Phdr\<close> (32 bytes)
  and the constants below are those of that format. A file is the list of its bytes; the
  cast of the buffer to a header structure reads the fields at their offsets, least
  significant byte first.
\<close>

definition le16 :: "u8 list \<Rightarrow> nat \<Rightarrow> u16" where
  "le16 bs off = ucast (bs ! off) OR push_bit 8 (ucast (bs ! (off + 1)))"

definition le32 :: "u8 list \<Rightarrow> nat \<Rightarrow> u32" where
  "le32 bs off =
     ucast (bs ! off) OR push_bit 8 (ucast (bs ! (off + 1))) OR
     push_bit 16 (ucast (bs ! (off + 2))) OR push_bit 24 (ucast (bs ! (off + 3)))"

record Elf32_Ehdr =
  e_ident :: "u8 list"
  e_type :: u16
  e_machine :: u16
  e_version :: u32
  e_entry :: u32
  e_phoff :: u32
  e_shoff :: u32
  e_flags :: u32
  e_ehsize :: u16
  e_phentsize :: u16
  e_phnum :: u16
  e_shentsize :: u16
  e_shnum :: u16
  e_shstrndx :: u16

record Elf32_Phdr =
  p_type :: u32
  p_offset :: u32
  p_vaddr :: u32
  p_paddr :: u32
  p_filesz :: u32
  p_memsz :: u32
  p_flags :: u32
  p_align :: u32

definition ehdr_of :: "u8 list \<Rightarrow> Elf32_Ehdr" where
  "ehdr_of bs =
     \<lparr>e_ident = take 16 bs, e_type = le16 bs 16, e_machine = le16 bs 18, e_version = le32 bs 20,
      e_entry = le32 bs 24, e_phoff = le32 bs 28, e_shoff = le32 bs 32, e_flags = le32 bs 36,
      e_ehsize = le16 bs 40, e_phentsize = le16 bs 42, e_phnum = le16 bs 44,
      e_shentsize = le16 bs 46, e_shnum = le16 bs 48, e_shstrndx = le16 bs 50\<rparr>"

definition phdr_at :: "u8 list \<Rightarrow> nat \<Rightarrow> Elf32_Phdr" where
  "phdr_at bs off =
     \<lparr>p_type = le32 bs off, p_offset = le32 bs (off + 4), p_vaddr = le32 bs (off + 8),
      p_paddr = le32 bs (off + 12), p_filesz = le32 bs (off + 16), p_memsz = le32 bs (off + 20),
      p_flags = le32 bs (off + 24), p_align = le32 bs (off + 28)\<rparr>"

definition sizeof_Elf32_Ehdr :: nat where "sizeof_Elf32_Ehdr = 52"
definition sizeof_Elf32_Phdr :: nat where "sizeof_Elf32_Phdr = 32"

text \<open>\<open>phdr_table[i]\<close>, with \<open>phdr_table = (Elf32_Phdr *)(file_data + ehdr->e_phoff)\<close>.\<close>

definition phdr_table :: "u8 list \<Rightarrow> nat \<Rightarrow> Elf32_Phdr" where
  "phdr_table bs i = phdr_at bs (unat (e_phoff (ehdr_of bs)) + sizeof_Elf32_Phdr * i)"

definition ELFMAG0 :: u8 where "ELFMAG0 = 0x7F"
definition ELFMAG1 :: u8 where "ELFMAG1 = 0x45"
definition ELFMAG2 :: u8 where "ELFMAG2 = 0x4C"
definition ELFMAG3 :: u8 where "ELFMAG3 = 0x46"
definition ELFCLASS32 :: u8 where "ELFCLASS32 = 1"
definition ELFDATA2LSB :: u8 where "ELFDATA2LSB = 1"
definition ET_EXEC :: u16 where "ET_EXEC = 2"
definition EM_386 :: u16 where "EM_386 = 3"
definition EV_CURRENT :: u32 where "EV_CURRENT = 1"
definition PT_LOAD :: u32 where "PT_LOAD = 1"
definition PF_X :: u32 where "PF_X = 1"
definition PF_W :: u32 where "PF_W = 2"
definition PF_R :: u32 where "PF_R = 4"

section \<open>Kernel state and the collaborators of \<open>process.c\<close>\<close>

text \<open>
  \<open>process.c\<close> works on resources that other files of the repository manage (\<open>frame.c\<close>,
  \<open>paging.c\<close>, \<open>mm.c\<close>, \<open>kmalloc.c\<close>, \<open>tss.c\<close>, \<open>read_file.c\<close>); none of them is under src.
  The state below holds what these collaborators manage, and the trace records every call
  that \<open>process.c\<close> makes to them, in order, with its arguments and its outcome.
\<close>

datatype map_result = MapOK | NoMemory | BadAlignment | KernelSpaceViolation

datatype kobj = ObjPcb u32 | ObjFrameList | ObjFileData

datatype event =
    EvKmalloc kobj bool
  | EvKfree kobj
  | EvFrameAlloc u32
  | EvPutFrame u32
  | EvTempMap u32 bool
  | EvTempUnmap
  | EvMapSingle u32 u32 u32 u32 map_result
  | EvUnmapRange u32 u32 u32
  | EvGetPhys u32 u32 "u32 option"
  | EvCreateMm u32 bool
  | EvDestroyMm u32
  | EvTssSet u32

text \<open>
  The state. Physical frames are seen through three typed stores (the entries of page
  directories, the entries of page tables, the bytes of data frames), each indexed by the
  frame's physical address; the frame allocator is trusted to keep the three uses apart.
  The memory of the kernel stacks is a store of 32-bit words at kernel virtual addresses.
  The outcomes of \<open>kmalloc\<close> and of \<open>paging_temp_map\<close>, whose causes of failure lie outside
  this model, are read from scripts: the head of the script is the outcome of the next call
  (\<open>True\<close> is success), and an exhausted script means success.
\<close>

record kstate =
  pool :: "u32 list"
  refcount :: "u32 \<Rightarrow> nat"
  pd_words :: "u32 \<Rightarrow> u32 \<Rightarrow> u32"
  pt_words :: "u32 \<Rightarrow> u32 \<Rightarrow> u32"
  frame_bytes :: "u32 \<Rightarrow> nat \<Rightarrow> u8"
  temp_slot :: "u32 option"
  kvmem :: "u32 \<Rightarrow> u32"
  tss_esp0 :: u32
  g_kernel_page_directory_phys :: u32
  g_nx_supported :: bool
  next_pid :: u32
  g_next_kernel_stack_virt_base :: u32
  files :: "string \<Rightarrow> u8 list option"
  kmalloc_script :: "bool list"
  temp_map_script :: "bool list"
  trace :: "event list"

definition log :: "event \<Rightarrow> kstate \<Rightarrow> kstate" where
  "log e s = s\<lparr>trace := trace s @ [e]\<rparr>"

subsection \<open>Frame refcount layer (spec 4.C)\<close>

text \<open>
  Modelled from the spec: \<open>frame_alloc\<close> and \<open>put_frame\<close> of \<open>frame.c\<close>. \<open>frame_alloc()\<close>
  returns a frame with reference count 1, or 0 on exhaustion; \<open>put_frame(p)\<close> decrements the
  count and, on the transition to 0, returns the frame to the allocator. The allocator is a
  list of free frames. The \<open>_raw\<close> functions are the operations themselves; \<open>frame_alloc\<close>
  and \<open>put_frame\<close> are the calls made by \<open>process.c\<close>, which the trace records.
\<close>

definition frame_alloc_raw :: "kstate \<Rightarrow> u32 \<times> kstate" where
  "frame_alloc_raw s =
     (case pool s of
        [] \<Rightarrow> (0, s)
      | f # fs \<Rightarrow> (f, s\<lparr>pool := fs, refcount := (refcount s)(f := 1)\<rparr>))"

definition put_frame_raw :: "u32 \<Rightarrow> kstate \<Rightarrow> kstate" where
  "put_frame_raw p s =
     (if refcount s p = 0 then s
      else if refcount s p = 1 then s\<lparr>pool := p # pool s, refcount := (refcount s)(p := 0)\<rparr>
      else s\<lparr>refcount := (refcount s)(p := refcount s p - 1)\<rparr>)"

definition frame_alloc :: "kstate \<Rightarrow> u32 \<times> kstate" where
  "frame_alloc s = (case frame_alloc_raw s of (f, s') \<Rightarrow> (f, log (EvFrameAlloc f) s'))"

definition put_frame :: "u32 \<Rightarrow> kstate \<Rightarrow> kstate" where
  "put_frame p s = log (EvPutFrame p) (put_frame_raw p s)"

subsection \<open>Kernel heap, TSS, file system\<close>

text \<open>
  Modelled from the spec: \<open>kmalloc\<close> and \<open>kfree\<close> (4.F), \<open>tss_set_kernel_stack\<close> (section 6:
  it updates the \<open>esp0\<close> field of the active TSS) and \<open>read_file\<close> (section 6: the whole
  file in a kernel buffer, or \<open>NULL\<close>). A kernel buffer on i386 is shorter than 4 GiB.
\<close>

definition next_outcome :: "bool list \<Rightarrow> bool \<times> bool list" where
  "next_outcome script = (case script of [] \<Rightarrow> (True, []) | b # bs \<Rightarrow> (b, bs))"

definition kmalloc :: "kobj \<Rightarrow> kstate \<Rightarrow> bool \<times> kstate" where
  "kmalloc obj s =
     (case next_outcome (kmalloc_script s) of
        (ok, rest) \<Rightarrow> (ok, log (EvKmalloc obj ok) (s\<lparr>kmalloc_script := rest\<rparr>)))"

definition kfree :: "kobj \<Rightarrow> kstate \<Rightarrow> kstate" where
  "kfree obj s = log (EvKfree obj) s"

definition tss_set_kernel_stack :: "u32 \<Rightarrow> kstate \<Rightarrow> kstate" where
  "tss_set_kernel_stack esp0 s = log (EvTssSet esp0) (s\<lparr>tss_esp0 := esp0\<rparr>)"

definition read_file :: "string \<Rightarrow> kstate \<Rightarrow> u8 list option" where
  "read_file path s =
     (case files s path of
        None \<Rightarrow> None
      | Some bs \<Rightarrow> if length bs < 2 ^ 32 then Some bs else None)"

subsection \<open>Paging engine (spec 4.D)\<close>

text \<open>
  Modelled from the spec: the operations of \<open>paging.c\<close> that \<open>process.c\<close> calls.
  \<open>paging_lookup\<close> is the walk of the two levels. \<open>paging_map_single_4k\<close> refuses a
  misaligned address (\<open>BadAlignment\<close>) and a user mapping in kernel space
  (\<open>KernelSpaceViolation\<close>), ensures that the PDE at \<open>PDE_INDEX(v)\<close> references a page table
  (allocating and zeroing one if it is absent, \<open>NoMemory\<close> when no frame is left, with PDE
  flags derived from the flags), then writes the PTE; when the PTE was present with another
  frame, that frame's count is decremented. \<open>paging_unmap_range\<close> clears the PTEs of the
  aligned range, decrements the counts of the frames that were mapped and skips missing
  PTEs. \<open>paging_temp_map\<close> maps a frame at \<open>PAGING_TEMP_VADDR\<close>, or returns \<open>NULL\<close> (0).
\<close>

definition paging_lookup :: "kstate \<Rightarrow> u32 \<Rightarrow> u32 \<Rightarrow> u32 option" where
  "paging_lookup s pd v =
     (let pde = pd_words s pd (PDE_INDEX v)
      in if pde AND PAGE_PRESENT = 0 then None
         else let pte = pt_words s (pde AND PAGING_ADDR_MASK) (PTE_INDEX v)
              in if pte AND PAGE_PRESENT = 0 then None
                 else Some ((pte AND PAGING_ADDR_MASK) OR (v AND (PAGE_SIZE - 1))))"

definition paging_get_physical_address :: "u32 \<Rightarrow> u32 \<Rightarrow> kstate \<Rightarrow> u32 option \<times> kstate" where
  "paging_get_physical_address pd v s =
     (paging_lookup s pd v, log (EvGetPhys pd v (paging_lookup s pd v)) s)"

definition write_pte :: "u32 \<Rightarrow> u32 \<Rightarrow> u32 \<Rightarrow> u32 \<Rightarrow> kstate \<Rightarrow> kstate" where
  "write_pte pt v p flags s =
     (let old = pt_words s pt (PTE_INDEX v);
          s1 = (if old AND PAGE_PRESENT \<noteq> 0 \<and> old AND PAGING_ADDR_MASK \<noteq> p
                then put_frame_raw (old AND PAGING_ADDR_MASK) s else s)
      in s1\<lparr>pt_words := (pt_words s1)(pt := (pt_words s1 pt)(PTE_INDEX v := p OR flags))\<rparr>)"

definition map_single_raw :: "u32 \<Rightarrow> u32 \<Rightarrow> u32 \<Rightarrow> u32 \<Rightarrow> kstate \<Rightarrow> map_result \<times> kstate" where
  "map_single_raw pd v p flags s =
     (if v AND (PAGE_SIZE - 1) \<noteq> 0 \<or> p AND (PAGE_SIZE - 1) \<noteq> 0 then (BadAlignment, s)
      else if KERNEL_VIRT_BASE \<le> v \<and> flags AND PAGE_USER \<noteq> 0 then (KernelSpaceViolation, s)
      else if pd_words s pd (PDE_INDEX v) AND PAGE_PRESENT = 0 then
        (case frame_alloc_raw s of
           (pt, s1) \<Rightarrow>
             if pt = 0 then (NoMemory, s1)
             else (MapOK,
                   write_pte pt v p flags
                     (s1\<lparr>pt_words := (pt_words s1)(pt := (\<lambda>_. 0)),
                         pd_words := (pd_words s1)(pd := (pd_words s1 pd)
                           (PDE_INDEX v := (pt AND PAGING_ADDR_MASK) OR PDE_FLAGS_FROM_PTE flags))\<rparr>)))
      else (MapOK, write_pte (pd_words s pd (PDE_INDEX v) AND PAGING_ADDR_MASK) v p flags s))"

definition paging_map_single_4k :: "u32 \<Rightarrow> u32 \<Rightarrow> u32 \<Rightarrow> u32 \<Rightarrow> kstate \<Rightarrow> map_result \<times> kstate" where
  "paging_map_single_4k pd v p flags s =
     (case map_single_raw pd v p flags s of
        (r, s') \<Rightarrow> (r, log (EvMapSingle pd v p flags r) s'))"

definition unmap_page :: "u32 \<Rightarrow> u32 \<Rightarrow> kstate \<Rightarrow> kstate" where
  "unmap_page pd v s =
     (let pde = pd_words s pd (PDE_INDEX v)
      in if pde AND PAGE_PRESENT = 0 then s
         else let pt = pde AND PAGING_ADDR_MASK; pte = pt_words s pt (PTE_INDEX v)
              in if pte AND PAGE_PRESENT = 0 then s
                 else (put_frame_raw (pte AND PAGING_ADDR_MASK) s)
                        \<lparr>pt_words := (pt_words (put_frame_raw (pte AND PAGING_ADDR_MASK) s))
                           (pt := (pt_words (put_frame_raw (pte AND PAGING_ADDR_MASK) s) pt)
                             (PTE_INDEX v := 0))\<rparr>)"

definition range_pages :: "u32 \<Rightarrow> u32 \<Rightarrow> u32 list" where
  "range_pages v n =
     map (\<lambda>k. PAGE_ALIGN_DOWN v + of_nat k * PAGE_SIZE)
       [0 ..< (unat (v AND (PAGE_SIZE - 1)) + unat n + 4095) div 4096]"

definition paging_unmap_range :: "u32 \<Rightarrow> u32 \<Rightarrow> u32 \<Rightarrow> kstate \<Rightarrow> kstate" where
  "paging_unmap_range pd v n s =
     log (EvUnmapRange pd v n) (fold (unmap_page pd) (range_pages v n) s)"

definition paging_temp_map :: "u32 \<Rightarrow> kstate \<Rightarrow> u32 \<times> kstate" where
  "paging_temp_map p s =
     (case next_outcome (temp_map_script s) of
        (ok, rest) \<Rightarrow>
          if ok then (PAGING_TEMP_VADDR,
                      log (EvTempMap p True) (s\<lparr>temp_map_script := rest, temp_slot := Some p\<rparr>))
          else (0, log (EvTempMap p False) (s\<lparr>temp_map_script := rest\<rparr>)))"

definition paging_temp_unmap :: "u32 \<Rightarrow> kstate \<Rightarrow> kstate" where
  "paging_temp_unmap temp_vaddr s = log EvTempUnmap (s\<lparr>temp_slot := None\<rparr>)"

text \<open>
  Modelled from the spec: \<open>copy_kernel_pde_entries\<close> of \<open>paging.c\<close> copies the kernel-space
  PDEs (the slots from \<open>KERNEL_PDE_INDEX\<close> on) of the canonical kernel page directory into
  the new directory, here the directory frame \<open>pd\<close> that the temporary slot maps.
\<close>

definition copy_kernel_pde_entries :: "u32 \<Rightarrow> kstate \<Rightarrow> kstate" where
  "copy_kernel_pde_entries pd s =
     s\<lparr>pd_words := (pd_words s)(pd := (\<lambda>i. if KERNEL_PDE_INDEX \<le> i \<and> i < 1024
                                             then pd_words s (g_kernel_page_directory_phys s) i
                                             else pd_words s pd i))\<rparr>"

text \<open>
  Modelled from the spec: \<open>paging_free_user_space\<close> walks the PDEs below \<open>KERNEL_PDE_INDEX\<close>;
  for a present page table it puts every mapped frame and then the table's frame, for a
  4 MiB PDE it releases the large frame; it clears the PDE.
\<close>

definition free_table_entry :: "u32 \<Rightarrow> u32 \<Rightarrow> kstate \<Rightarrow> kstate" where
  "free_table_entry pt i s =
     (if pt_words s pt i AND PAGE_PRESENT = 0 then s
      else put_frame_raw (pt_words s pt i AND PAGING_ADDR_MASK) s)"

definition free_user_pde :: "u32 \<Rightarrow> u32 \<Rightarrow> kstate \<Rightarrow> kstate" where
  "free_user_pde pd i s =
     (let pde = pd_words s pd i
      in if pde AND PAGE_PRESENT = 0 then s
         else let s1 = (if pde AND PAGE_SIZE_4MB \<noteq> 0
                        then put_frame_raw (pde AND PAGING_PDE_ADDR_MASK_4MB) s
                        else put_frame_raw (pde AND PAGING_ADDR_MASK)
                               (fold (free_table_entry (pde AND PAGING_ADDR_MASK))
                                  (map of_nat [0 ..< 1024]) s))
              in s1\<lparr>pd_words := (pd_words s1)(pd := (pd_words s1 pd)(i := 0))\<rparr>)"

definition paging_free_user_space :: "u32 \<Rightarrow> kstate \<Rightarrow> kstate" where
  "paging_free_user_space pd s =
     fold (free_user_pde pd) (map of_nat [0 ..< unat KERNEL_PDE_INDEX]) s"

subsection \<open>Memory descriptor (spec 4.E)\<close>

text \<open>
  Modelled from the spec: the descriptor of \<open>mm.h\<close> and \<open>create_mm\<close>, \<open>insert_vma\<close>,
  \<open>destroy_mm\<close> of \<open>mm.c\<close>. The VMA flags are distinct bits whose values are not under src;
  a flag word is the set of its flags. \<open>insert_vma\<close> inserts in sorted order and fails on
  an overlap or on a span that crosses into kernel space; the file and file offset of a VMA
  are always \<open>NULL\<close> and 0 here and are left out. \<open>destroy_mm\<close> frees the user space of the
  directory, the VMA list and the descriptor, not the directory frame.
\<close>

datatype vm_flag = VM_READ | VM_WRITE | VM_EXEC | VM_USER | VM_ANONYMOUS | VM_GROWS_DOWN

record vma_struct =
  vma_vm_start :: u32
  vma_vm_end :: u32
  vma_vm_flags :: "vm_flag set"
  vma_page_prot :: u32

record mm_struct =
  pgd_phys :: u32
  vmas :: "vma_struct list"
  start_brk :: u32
  end_brk :: u32

definition create_mm :: "u32 \<Rightarrow> kstate \<Rightarrow> mm_struct option \<times> kstate" where
  "create_mm pd s =
     (case next_outcome (kmalloc_script s) of
        (ok, rest) \<Rightarrow>
          ((if ok then Some \<lparr>pgd_phys = pd, vmas = [], start_brk = 0, end_brk = 0\<rparr> else None),
           log (EvCreateMm pd ok) (s\<lparr>kmalloc_script := rest\<rparr>)))"

definition vma_overlaps :: "u32 \<Rightarrow> u32 \<Rightarrow> vma_struct \<Rightarrow> bool" where
  "vma_overlaps start end v \<longleftrightarrow> start < vma_vm_end v \<and> vma_vm_start v < end"

definition insert_vma ::
  "mm_struct \<Rightarrow> u32 \<Rightarrow> u32 \<Rightarrow> vm_flag set \<Rightarrow> u32 \<Rightarrow> mm_struct option" where
  "insert_vma m start end flags prot =
     (if KERNEL_VIRT_BASE < end \<or> list_ex (vma_overlaps start end) (vmas m) then None
      else Some (m\<lparr>vmas := insort_key vma_vm_start
                     \<lparr>vma_vm_start = start, vma_vm_end = end, vma_vm_flags = flags,
                      vma_page_prot = prot\<rparr>
                     (vmas m)\<rparr>))"

definition destroy_mm :: "mm_struct \<Rightarrow> kstate \<Rightarrow> kstate" where
  "destroy_mm m s = log (EvDestroyMm (pgd_phys m)) (paging_free_user_space (pgd_phys m) s)"

section \<open>Process control block\<close>

text \<open>
  \<open>pcb_t\<close> of \<open>process.h\<close> (not under src), with the fields that \<open>process.c\<close> uses. Pointer
  fields hold addresses, 0 for \<open>NULL\<close>; the descriptor that \<open>mm\<close> points to is held by value.
\<close>

record pcb_t =
  pid :: u32
  page_directory_phys :: u32
  kernel_stack_phys_base :: u32
  kernel_stack_vaddr_top :: u32
  entry_point :: u32
  user_stack_top :: u32
  kernel_esp_for_switch :: u32
  mm :: "mm_struct option"

section \<open>\<open>process.c\<close>\<close>

text \<open>
  A function of \<open>process.c\<close> that contains a \<open>KERNEL_ASSERT\<close> or a loop on a 32-bit address
  returns an option: \<open>None\<close> is the call that does not return (the assertion halts the
  kernel, or the loop runs forever).
\<close>

subsection \<open>\<open>allocate_kernel_stack\<close>\<close>

definition put_frames :: "u32 list \<Rightarrow> kstate \<Rightarrow> kstate" where
  "put_frames fs s = fold put_frame fs s"

text \<open>
  The first loop: \<open>n\<close> frames are still to allocate, \<open>acc\<close> is \<open>phys_frames[0 ..
  allocated_count)\<close>. On exhaustion the frames allocated so far are put, in index order.
\<close>

fun alloc_stack_frames :: "nat \<Rightarrow> u32 list \<Rightarrow> kstate \<Rightarrow> u32 list option \<times> kstate" where
  "alloc_stack_frames 0 acc s = (Some acc, s)"
| "alloc_stack_frames (Suc n) acc s =
     (case frame_alloc s of
        (f, s1) \<Rightarrow>
          if f = 0 then (None, put_frames acc s1)
          else alloc_stack_frames n (acc @ [f]) s1)"

text \<open>
  The third loop, at index \<open>i\<close> with the frames \<open>phys_frames[i ..]\<close> still to map. On a
  mapping failure: unmap the pages before \<open>i\<close>, put all the frames, free the array, rewind
  the bump pointer.
\<close>

fun map_stack_pages :: "u32 \<Rightarrow> u32 list \<Rightarrow> nat \<Rightarrow> u32 list \<Rightarrow> kstate \<Rightarrow> bool \<times> kstate" where
  "map_stack_pages kstack_virt_base phys_frames i [] s = (True, s)"
| "map_stack_pages kstack_virt_base phys_frames i (phys_addr # rest) s =
     (case paging_map_single_4k (g_kernel_page_directory_phys s)
             (kstack_virt_base + of_nat i * PAGE_SIZE) phys_addr PTE_KERNEL_DATA_FLAGS s of
        (map_res, s1) \<Rightarrow>
          if map_res \<noteq> MapOK then
            (False,
             (kfree ObjFrameList
                (put_frames phys_frames
                   (if 0 < i
                    then paging_unmap_range (g_kernel_page_directory_phys s1) kstack_virt_base
                           (of_nat i * PAGE_SIZE) s1
                    else s1)))
             \<lparr>g_next_kernel_stack_virt_base := kstack_virt_base\<rparr>)
          else map_stack_pages kstack_virt_base phys_frames (Suc i) rest s1)"

definition allocate_kernel_stack ::
  "config \<Rightarrow> pcb_t \<Rightarrow> kstate \<Rightarrow> (bool \<times> pcb_t \<times> kstate) option" where
  "allocate_kernel_stack cfg proc s =
     (let stack_alloc_size = PROCESS_KSTACK_SIZE cfg
      in if stack_alloc_size = 0 \<or> stack_alloc_size mod PAGE_SIZE \<noteq> 0 then Some (False, proc, s)
         else
           (case kmalloc ObjFrameList s of
              (ok, s1) \<Rightarrow>
                if \<not> ok then Some (False, proc, s1)
                else
                  (case alloc_stack_frames (unat (stack_alloc_size div PAGE_SIZE)) [] s1 of
                     (None, s2) \<Rightarrow> Some (False, proc, kfree ObjFrameList s2)
                   | (Some phys_frames, s2) \<Rightarrow>
                       (let proc1 = proc\<lparr>kernel_stack_phys_base := phys_frames ! 0\<rparr>;
                            kstack_virt_base = g_next_kernel_stack_virt_base s2;
                            kstack_virt_end = kstack_virt_base + stack_alloc_size
                        in if kstack_virt_base < KERNEL_STACK_VIRT_START \<or>
                              KERNEL_STACK_VIRT_END < kstack_virt_end \<or>
                              kstack_virt_end \<le> kstack_virt_base
                           then Some (False, proc1, kfree ObjFrameList (put_frames phys_frames s2))
                           else if kstack_virt_base mod PAGE_SIZE \<noteq> 0 then None
                           else
                             (case map_stack_pages kstack_virt_base phys_frames 0 phys_frames
                                     (s2\<lparr>g_next_kernel_stack_virt_base := kstack_virt_end\<rparr>) of
                                (False, s3) \<Rightarrow> Some (False, proc1, s3)
                              | (True, s3) \<Rightarrow>
                                  Some (True, proc1\<lparr>kernel_stack_vaddr_top := kstack_virt_end\<rparr>,
                                        kfree ObjFrameList s3))))))"

subsection \<open>\<open>copy_elf_segment_data\<close>\<close>

text \<open>
  The destination of \<open>memcpy\<close> and \<open>memset\<close> is the temporary mapping of \<open>frame_paddr\<close>:
  the copy goes to the first \<open>size_to_copy\<close> bytes of the frame, the zeroes to the
  \<open>zero_padding\<close> bytes after them. The result 0 is success, -1 the failure of the temporary
  mapping.
\<close>

definition memcpy_to_frame :: "u32 \<Rightarrow> u8 list \<Rightarrow> nat \<Rightarrow> nat \<Rightarrow> kstate \<Rightarrow> kstate" where
  "memcpy_to_frame frame src src_off n s =
     s\<lparr>frame_bytes := (frame_bytes s)(frame :=
          (\<lambda>i. if i < n then src ! (src_off + i) else frame_bytes s frame i))\<rparr>"

definition memset_frame :: "u32 \<Rightarrow> nat \<Rightarrow> u8 \<Rightarrow> nat \<Rightarrow> kstate \<Rightarrow> kstate" where
  "memset_frame frame dst_off c n s =
     s\<lparr>frame_bytes := (frame_bytes s)(frame :=
          (\<lambda>i. if dst_off \<le> i \<and> i < dst_off + n then c else frame_bytes s frame i))\<rparr>"

definition copy_elf_segment_data ::
  "u32 \<Rightarrow> u8 list \<Rightarrow> u32 \<Rightarrow> u32 \<Rightarrow> u32 \<Rightarrow> kstate \<Rightarrow> (int \<times> kstate) option" where
  "copy_elf_segment_data frame_paddr file_data_buffer file_buffer_offset size_to_copy zero_padding s =
     (if \<not> (frame_paddr \<noteq> 0 \<and> frame_paddr mod PAGE_SIZE = 0) then None
      else if \<not> (size_to_copy + zero_padding \<le> PAGE_SIZE) then None
      else
        (case paging_temp_map frame_paddr s of
           (temp_vaddr, s1) \<Rightarrow>
             if temp_vaddr = 0 then Some (- 1, s1)
             else
               (let s2 = (if 0 < size_to_copy
                          then memcpy_to_frame frame_paddr file_data_buffer
                                 (unat file_buffer_offset) (unat size_to_copy) s1
                          else s1);
                    s3 = (if 0 < zero_padding
                          then memset_frame frame_paddr (unat size_to_copy) 0 (unat zero_padding) s2
                          else s2)
                in Some (0, paging_temp_unmap temp_vaddr s3))))"

subsection \<open>\<open>load_elf_and_init_memory\<close>\<close>

text \<open>
  The quantities that the page loop computes for the page at \<open>page_v\<close> of a segment:
  \<open>copy_size_this_page\<close>, \<open>file_buffer_offset\<close> and \<open>zero_padding_this_page\<close>.
\<close>

definition page_end_vaddr :: "u32 \<Rightarrow> u32" where
  "page_end_vaddr page_v = (if page_v + PAGE_SIZE \<le> page_v then UINTPTR_MAX else page_v + PAGE_SIZE)"

definition copy_size_this_page :: "Elf32_Phdr \<Rightarrow> u32 \<Rightarrow> u32" where
  "copy_size_this_page phdr page_v =
     (let copy_v_start = max page_v (p_vaddr phdr);
          copy_v_end = min (page_end_vaddr page_v) (p_vaddr phdr + p_filesz phdr)
      in if copy_v_start < copy_v_end then copy_v_end - copy_v_start else 0)"

definition file_buffer_offset :: "Elf32_Phdr \<Rightarrow> u32 \<Rightarrow> u32" where
  "file_buffer_offset phdr page_v =
     (if 0 < copy_size_this_page phdr page_v
      then (max page_v (p_vaddr phdr) - p_vaddr phdr) + p_offset phdr else 0)"

definition zero_padding_this_page :: "Elf32_Phdr \<Rightarrow> u32 \<Rightarrow> u32" where
  "zero_padding_this_page phdr page_v =
     (let mem_end_vaddr = (if p_vaddr phdr + p_memsz phdr < p_vaddr phdr then UINTPTR_MAX
                           else p_vaddr phdr + p_memsz phdr);
          zero_v_start = page_v + copy_size_this_page phdr page_v;
          zero_v_end = min (page_end_vaddr page_v) mem_end_vaddr
      in if zero_v_start < zero_v_end then zero_v_end - zero_v_start else 0)"

text \<open>
  The loop over the pages of one segment, from \<open>page_v\<close> to \<open>vm_end\<close>. The result is
  \<open>True\<close> when every page was allocated, populated and mapped, \<open>False\<close> at a \<open>goto
  cleanup_load_elf\<close>. At every such \<open>goto\<close> the variable \<open>phys_page\<close> is 0 (the allocation
  failed, or the frame was put and the variable reset), so the \<open>put_frame\<close> at the label
  never runs.
\<close>

partial_function (option) load_segment_pages ::
  "u8 list \<Rightarrow> Elf32_Phdr \<Rightarrow> u32 \<Rightarrow> u32 \<Rightarrow> u32 \<Rightarrow> u32 \<Rightarrow> kstate \<Rightarrow> (bool \<times> kstate) option" where
  "load_segment_pages file_data phdr pgd page_prot page_v vm_end s =
     (if page_v < vm_end then
        (case frame_alloc s of
           (phys_page, s1) \<Rightarrow>
             if phys_page = 0 then Some (False, s1)
             else if PAGE_SIZE < copy_size_this_page phdr page_v + zero_padding_this_page phdr page_v
             then Some (False, put_frame phys_page s1)
             else
               (case copy_elf_segment_data phys_page file_data (file_buffer_offset phdr page_v)
                       (copy_size_this_page phdr page_v) (zero_padding_this_page phdr page_v) s1 of
                  None \<Rightarrow> None
                | Some (r, s2) \<Rightarrow>
                    if r \<noteq> 0 then Some (False, put_frame phys_page s2)
                    else
                      (case paging_map_single_4k pgd page_v phys_page page_prot s2 of
                         (map_res, s3) \<Rightarrow>
                           if map_res \<noteq> MapOK then Some (False, put_frame phys_page s3)
                           else load_segment_pages file_data phdr pgd page_prot
                                  (page_v + PAGE_SIZE) vm_end s3)))
      else Some (True, s))"

text \<open>The validation of a \<open>PT_LOAD\<close> segment's geometry, \<open>file_size\<close> being a \<open>size_t\<close>.\<close>

definition segment_invalid :: "u32 \<Rightarrow> Elf32_Phdr \<Rightarrow> bool" where
  "segment_invalid file_size phdr \<longleftrightarrow>
     KERNEL_VIRT_BASE \<le> p_vaddr phdr \<or>
     (KERNEL_VIRT_BASE < p_vaddr phdr + p_memsz phdr \<and> p_vaddr phdr < KERNEL_VIRT_BASE) \<or>
     p_vaddr phdr + p_memsz phdr < p_vaddr phdr \<or>
     p_memsz phdr < p_filesz phdr \<or>
     file_size < p_offset phdr \<or> file_size - p_offset phdr < p_filesz phdr"

definition segment_vma_flags :: "Elf32_Phdr \<Rightarrow> vm_flag set" where
  "segment_vma_flags phdr =
     {VM_USER, VM_ANONYMOUS} \<union> (if p_flags phdr AND PF_R \<noteq> 0 then {VM_READ} else {}) \<union>
     (if p_flags phdr AND PF_W \<noteq> 0 then {VM_WRITE} else {}) \<union>
     (if p_flags phdr AND PF_X \<noteq> 0 then {VM_EXEC} else {})"

definition segment_page_prot :: "bool \<Rightarrow> Elf32_Phdr \<Rightarrow> u32" where
  "segment_page_prot nx phdr =
     (PAGE_PRESENT OR PAGE_USER) OR (if p_flags phdr AND PF_W \<noteq> 0 then PAGE_RW else 0) OR
     (if p_flags phdr AND PF_X \<noteq> 0 then 0 else if nx then PAGE_NX_BIT else 0)"

text \<open>
  The loop over the program headers, on the headers still to process. The state of the loop
  is the descriptor (which \<open>insert_vma\<close> changes), \<open>highest_addr_loaded\<close> and the kernel
  state; the result is \<open>False\<close> at a \<open>goto cleanup_load_elf\<close>.
\<close>

fun load_segments ::
  "u8 list \<Rightarrow> Elf32_Phdr list \<Rightarrow> mm_struct \<Rightarrow> u32 \<Rightarrow> kstate \<Rightarrow>
     (bool \<times> mm_struct \<times> u32 \<times> kstate) option" where
  "load_segments file_data [] m highest_addr_loaded s = Some (True, m, highest_addr_loaded, s)"
| "load_segments file_data (phdr # rest) m highest_addr_loaded s =
     (if p_type phdr \<noteq> PT_LOAD \<or> p_memsz phdr = 0
      then load_segments file_data rest m highest_addr_loaded s
      else if segment_invalid (of_nat (length file_data)) phdr
      then Some (False, m, highest_addr_loaded, s)
      else if PAGE_ALIGN_UP (p_vaddr phdr + p_memsz phdr) \<le> PAGE_ALIGN_DOWN (p_vaddr phdr)
      then load_segments file_data rest m highest_addr_loaded s
      else
        (case insert_vma m (PAGE_ALIGN_DOWN (p_vaddr phdr))
                (PAGE_ALIGN_UP (p_vaddr phdr + p_memsz phdr)) (segment_vma_flags phdr)
                (segment_page_prot (g_nx_supported s) phdr) of
           None \<Rightarrow> Some (False, m, highest_addr_loaded, s)
         | Some m1 \<Rightarrow>
             (case load_segment_pages file_data phdr (pgd_phys m1)
                     (segment_page_prot (g_nx_supported s) phdr)
                     (PAGE_ALIGN_DOWN (p_vaddr phdr))
                     (PAGE_ALIGN_UP (p_vaddr phdr + p_memsz phdr)) s of
                None \<Rightarrow> None
              | Some (False, s1) \<Rightarrow> Some (False, m1, highest_addr_loaded, s1)
              | Some (True, s1) \<Rightarrow>
                  (let current_segment_end =
                         (if p_vaddr phdr + p_memsz phdr < p_vaddr phdr then UINTPTR_MAX
                          else p_vaddr phdr + p_memsz phdr)
                   in load_segments file_data rest m1
                        (if highest_addr_loaded < current_segment_end then current_segment_end
                         else highest_addr_loaded) s1))))"

text \<open>
  The validation of the ELF header. The sum \<open>e_phoff + (uint64_t)e_phnum * e_phentsize\<close> is
  a 64-bit sum that cannot wrap; it is compared on natural numbers.
\<close>

definition elf_header_invalid :: "u8 list \<Rightarrow> bool" where
  "elf_header_invalid file_data \<longleftrightarrow>
     (let ehdr = ehdr_of file_data
      in e_ident ehdr ! 0 \<noteq> ELFMAG0 \<or> e_ident ehdr ! 1 \<noteq> ELFMAG1 \<or>
         e_ident ehdr ! 2 \<noteq> ELFMAG2 \<or> e_ident ehdr ! 3 \<noteq> ELFMAG3 \<or>
         e_ident ehdr ! 4 \<noteq> ELFCLASS32 \<or>
         e_ident ehdr ! 5 \<noteq> ELFDATA2LSB \<or>
         e_type ehdr \<noteq> ET_EXEC \<or>
         e_machine ehdr \<noteq> EM_386 \<or>
         e_version ehdr \<noteq> EV_CURRENT \<or>
         unat (e_phentsize ehdr) \<noteq> sizeof_Elf32_Phdr \<or>
         e_phoff ehdr = 0 \<or>
         e_phnum ehdr = 0 \<or>
         length file_data < unat (e_phoff ehdr) + unat (e_phnum ehdr) * unat (e_phentsize ehdr) \<or>
         e_entry ehdr = 0)"

text \<open>
  \<open>load_elf_and_init_memory\<close>. The arguments \<open>entry_point0\<close> and \<open>initial_brk\<close> are the values
  that the two output parameters point to before the call; the result holds the return value
  (0 or -1), the descriptor, the values of the two output parameters after the call and the
  state. The buffer of the file is freed at the label \<open>cleanup_load_elf\<close>.
\<close>

definition load_elf_and_init_memory ::
  "string \<Rightarrow> mm_struct \<Rightarrow> u32 \<Rightarrow> u32 \<Rightarrow> kstate \<Rightarrow> (int \<times> mm_struct \<times> u32 \<times> u32 \<times> kstate) option" where
  "load_elf_and_init_memory path m entry_point0 initial_brk s =
     (case read_file path s of
        None \<Rightarrow> Some (- 1, m, entry_point0, initial_brk, s)
      | Some file_data \<Rightarrow>
          if length file_data < sizeof_Elf32_Ehdr
          then Some (- 1, m, entry_point0, initial_brk, kfree ObjFileData s)
          else if elf_header_invalid file_data
          then Some (- 1, m, entry_point0, initial_brk, kfree ObjFileData s)
          else
            (case load_segments file_data
                    (map (phdr_table file_data) [0 ..< unat (e_phnum (ehdr_of file_data))])
                    m 0 s of
               None \<Rightarrow> None
             | Some (False, m1, highest_addr_loaded, s1) \<Rightarrow>
                 Some (- 1, m1, e_entry (ehdr_of file_data), initial_brk, kfree ObjFileData s1)
             | Some (True, m1, highest_addr_loaded, s1) \<Rightarrow>
                 Some (0, m1, e_entry (ehdr_of file_data),
                       (if PAGE_ALIGN_UP highest_addr_loaded < highest_addr_loaded then UINTPTR_MAX
                        else PAGE_ALIGN_UP highest_addr_loaded),
                       kfree ObjFileData s1)))"

subsection \<open>\<open>prepare_initial_kernel_stack\<close>\<close>

text \<open>
  \<open>kstack_ptr\<close> is a \<open>uint32_t *\<close>: each decrement lowers the address by 4, each store writes
  the 32-bit word at the address.
\<close>

definition push32 :: "u32 \<Rightarrow> u32 \<times> kstate \<Rightarrow> u32 \<times> kstate" where
  "push32 v ps =
     (case ps of (kstack_ptr, s) \<Rightarrow>
        (kstack_ptr - 4, s\<lparr>kvmem := (kvmem s)(kstack_ptr - 4 := v)\<rparr>))"

definition prepare_initial_kernel_stack :: "config \<Rightarrow> pcb_t \<Rightarrow> kstate \<Rightarrow> (pcb_t \<times> kstate) option" where
  "prepare_initial_kernel_stack cfg proc s =
     (if kernel_stack_vaddr_top proc = 0 \<or> entry_point proc = 0 \<or> user_stack_top proc = 0 then None
      else
        (case push32 (entry_point proc)
               (push32 (GDT_USER_CODE_SELECTOR cfg OR 3)
                 (push32 USER_EFLAGS_DEFAULT
                   (push32 (user_stack_top proc)
                     (push32 (GDT_USER_DATA_SELECTOR cfg OR 3)
                       (kernel_stack_vaddr_top proc, s))))) of
           (kstack_ptr, s') \<Rightarrow> Some (proc\<lparr>kernel_esp_for_switch := kstack_ptr\<rparr>, s')))"

subsection \<open>\<open>destroy_process\<close>\<close>

text \<open>The loop over the kernel virtual addresses of the stack, from \<open>v_addr\<close> to \<open>stack_top\<close>.\<close>

partial_function (option) free_kernel_stack_frames :: "u32 \<Rightarrow> u32 \<Rightarrow> kstate \<Rightarrow> kstate option" where
  "free_kernel_stack_frames v_addr stack_top s =
     (if v_addr < stack_top then
        (case paging_get_physical_address (g_kernel_page_directory_phys s) v_addr s of
           (None, s1) \<Rightarrow> free_kernel_stack_frames (v_addr + PAGE_SIZE) stack_top s1
         | (Some phys_addr, s1) \<Rightarrow>
             free_kernel_stack_frames (v_addr + PAGE_SIZE) stack_top
               (if phys_addr \<noteq> 0 then put_frame phys_addr s1 else s1))
      else Some s)"

definition destroy_process :: "config \<Rightarrow> pcb_t \<Rightarrow> kstate \<Rightarrow> kstate option" where
  "destroy_process cfg pcb s =
     (let s1 = (case mm pcb of Some m \<Rightarrow> destroy_mm m s | None \<Rightarrow> s)
      in case (if kernel_stack_vaddr_top pcb \<noteq> 0
               then (case free_kernel_stack_frames
                            (kernel_stack_vaddr_top pcb - PROCESS_KSTACK_SIZE cfg)
                            (kernel_stack_vaddr_top pcb) s1 of
                       None \<Rightarrow> None
                     | Some s2 \<Rightarrow>
                         Some (paging_unmap_range (g_kernel_page_directory_phys s2)
                                 (kernel_stack_vaddr_top pcb - PROCESS_KSTACK_SIZE cfg)
                                 (PROCESS_KSTACK_SIZE cfg) s2))
               else Some s1) of
           None \<Rightarrow> None
         | Some s3 \<Rightarrow>
             Some (kfree (ObjPcb (pid pcb))
                     (if page_directory_phys pcb \<noteq> 0
                      then put_frame (page_directory_phys pcb) s3 else s3)))"

subsection \<open>\<open>create_user_process\<close>\<close>

text \<open>
  The label \<open>fail_create\<close>. The temporary mapping of the directory is never active there
  (\<open>pd_mapped_temp\<close> is reset before the first \<open>goto\<close> that follows the mapping), and \<open>proc\<close>
  is never \<open>NULL\<close>; what remains is the release of the initial user stack frame when it
  was allocated and not mapped, and \<open>destroy_process\<close>. The result is \<open>NULL\<close>.
\<close>

definition fail_create ::
  "config \<Rightarrow> pcb_t \<Rightarrow> u32 \<Rightarrow> bool \<Rightarrow> kstate \<Rightarrow> (pcb_t option \<times> kstate) option" where
  "fail_create cfg proc initial_stack_phys_frame initial_stack_mapped s =
     (case destroy_process cfg proc
             (if initial_stack_phys_frame \<noteq> 0 \<and> \<not> initial_stack_mapped
              then put_frame initial_stack_phys_frame s else s) of
        None \<Rightarrow> None
      | Some s' \<Rightarrow> Some (None, s'))"

text \<open>
  Steps 7 to 9 (the standard VMAs, the initial user stack page, the IRET frame), after the
  break pointers are set.
\<close>

definition setup_user_stack ::
  "config \<Rightarrow> pcb_t \<Rightarrow> mm_struct \<Rightarrow> u32 \<Rightarrow> kstate \<Rightarrow> (pcb_t option \<times> kstate) option" where
  "setup_user_stack cfg proc m initial_brk_addr s =
     (let m1 = (case insert_vma m initial_brk_addr initial_brk_addr
                       {VM_READ, VM_WRITE, VM_USER, VM_ANONYMOUS} PTE_USER_DATA_FLAGS of
                  None \<Rightarrow> m | Some m' \<Rightarrow> m')
      in if \<not> (USER_STACK_BOTTOM_VIRT cfg < USER_STACK_TOP_VIRT_ADDR cfg \<and>
                USER_STACK_TOP_VIRT_ADDR cfg \<le> KERNEL_VIRT_BASE \<and>
                USER_STACK_BOTTOM_VIRT cfg mod PAGE_SIZE = 0 \<and>
                USER_STACK_TOP_VIRT_ADDR cfg mod PAGE_SIZE = 0) then None
         else
           (case insert_vma m1 (USER_STACK_BOTTOM_VIRT cfg) (USER_STACK_TOP_VIRT_ADDR cfg)
                   {VM_READ, VM_WRITE, VM_USER, VM_GROWS_DOWN, VM_ANONYMOUS} PTE_USER_DATA_FLAGS of
              None \<Rightarrow> fail_create cfg (proc\<lparr>mm := Some m1\<rparr>) 0 False s
            | Some m2 \<Rightarrow>
                (let proc1 = proc\<lparr>mm := Some m2, user_stack_top := USER_STACK_TOP_VIRT_ADDR cfg\<rparr>;
                     initial_stack_page_vaddr = USER_STACK_TOP_VIRT_ADDR cfg - PAGE_SIZE
                 in if initial_stack_page_vaddr < USER_STACK_BOTTOM_VIRT cfg then None
                    else
                      (case frame_alloc s of
                         (initial_stack_phys_frame, s1) \<Rightarrow>
                           if initial_stack_phys_frame = 0 then fail_create cfg proc1 0 False s1
                           else
                             (case paging_map_single_4k (page_directory_phys proc1)
                                     initial_stack_page_vaddr initial_stack_phys_frame
                                     PTE_USER_DATA_FLAGS s1 of
                                (map_res, s2) \<Rightarrow>
                                  if map_res \<noteq> MapOK
                                  then fail_create cfg proc1 initial_stack_phys_frame False s2
                                  else
                                    (case prepare_initial_kernel_stack cfg proc1 s2 of
                                       None \<Rightarrow> None
                                     | Some (proc2, s3) \<Rightarrow> Some (Some proc2, s3)))))))"

text \<open>
  Steps 4.5 to 6 (the TSS update, the descriptor, the ELF load), after the kernel stack is
  allocated.
\<close>

definition load_user_image ::
  "config \<Rightarrow> string \<Rightarrow> pcb_t \<Rightarrow> kstate \<Rightarrow> (pcb_t option \<times> kstate) option" where
  "load_user_image cfg path proc s =
     (case create_mm (page_directory_phys proc)
             (tss_set_kernel_stack (kernel_stack_vaddr_top proc) s) of
        (None, s1) \<Rightarrow> fail_create cfg proc 0 False s1
      | (Some m, s1) \<Rightarrow>
          (case load_elf_and_init_memory path m (entry_point proc) 0 s1 of
             None \<Rightarrow> None
           | Some (r, m1, entry, initial_brk_addr, s2) \<Rightarrow>
               if r \<noteq> 0 then fail_create cfg (proc\<lparr>mm := Some m1, entry_point := entry\<rparr>) 0 False s2
               else setup_user_stack cfg (proc\<lparr>entry_point := entry\<rparr>)
                      (m1\<lparr>start_brk := initial_brk_addr, end_brk := initial_brk_addr\<rparr>)
                      initial_brk_addr s2))"

text \<open>
  Step 3: the new directory is zeroed through the temporary mapping, receives the kernel
  PDEs and its recursive entry.
\<close>

definition init_page_directory :: "u32 \<Rightarrow> kstate \<Rightarrow> kstate" where
  "init_page_directory pd_phys s =
     (let s1 = s\<lparr>pd_words := (pd_words s)(pd_phys := (\<lambda>_. 0))\<rparr>;
          s2 = copy_kernel_pde_entries pd_phys s1
      in s2\<lparr>pd_words := (pd_words s2)(pd_phys := (pd_words s2 pd_phys)
               (RECURSIVE_PDE_INDEX :=
                  (pd_phys AND PAGING_ADDR_MASK) OR PAGE_PRESENT OR PAGE_RW OR PAGE_NX_BIT))\<rparr>)"

definition zeroed_pcb :: pcb_t where
  "zeroed_pcb =
     \<lparr>pid = 0, page_directory_phys = 0, kernel_stack_phys_base = 0, kernel_stack_vaddr_top = 0,
      entry_point = 0, user_stack_top = 0, kernel_esp_for_switch = 0, mm = None\<rparr>"

definition create_user_process ::
  "config \<Rightarrow> string \<Rightarrow> kstate \<Rightarrow> (pcb_t option \<times> kstate) option" where
  "create_user_process cfg path s =
     (case kmalloc (ObjPcb (next_pid s)) s of
        (ok, s0) \<Rightarrow>
          if \<not> ok then Some (None, s0)
          else
            (let proc = zeroed_pcb\<lparr>pid := next_pid s0\<rparr>;
                 s1 = s0\<lparr>next_pid := next_pid s0 + 1\<rparr>
             in case frame_alloc s1 of
                  (pd_phys, s2) \<Rightarrow>
                    if pd_phys = 0 then fail_create cfg proc 0 False s2
                    else
                      (let proc1 = proc\<lparr>page_directory_phys := pd_phys\<rparr>
                       in case paging_temp_map pd_phys s2 of
                            (proc_pd_virt_temp, s3) \<Rightarrow>
                              if proc_pd_virt_temp = 0 then fail_create cfg proc1 0 False s3
                              else
                                (case allocate_kernel_stack cfg proc1
                                        (paging_temp_unmap proc_pd_virt_temp
                                           (init_page_directory pd_phys s3)) of
                                   None \<Rightarrow> None
                                 | Some (False, proc2, s4) \<Rightarrow> fail_create cfg proc2 0 False s4
                                 | Some (True, proc2, s4) \<Rightarrow> load_user_image cfg path proc2 s4))))"


section \<open>Derived notions\<close>

subsection \<open>What a piece of trace says\<close>

text \<open>
  The frames that a piece of trace shows allocated (\<open>frame_alloc\<close> returned them) and put,
  the pages that it shows mapped (a successful \<open>paging_map_single_4k\<close>, with its directory)
  and unmapped (the pages of the aligned range of a \<open>paging_unmap_range\<close>), and the values
  written to the TSS, each in the order of the calls.
\<close>

fun ev_allocated :: "event \<Rightarrow> u32 list" where
  "ev_allocated (EvFrameAlloc f) = (if f = 0 then [] else [f])"
| "ev_allocated _ = []"

fun ev_put :: "event \<Rightarrow> u32 list" where
  "ev_put (EvPutFrame f) = [f]"
| "ev_put _ = []"

fun ev_mapped :: "event \<Rightarrow> (u32 \<times> u32) list" where
  "ev_mapped (EvMapSingle pd v p fl r) = (if r = MapOK then [(pd, v)] else [])"
| "ev_mapped _ = []"

fun ev_unmapped :: "event \<Rightarrow> (u32 \<times> u32) list" where
  "ev_unmapped (EvUnmapRange pd v n) = map (Pair pd) (range_pages v n)"
| "ev_unmapped _ = []"

fun ev_tss :: "event \<Rightarrow> u32 list" where
  "ev_tss (EvTssSet t) = [t]"
| "ev_tss _ = []"

definition frames_allocated :: "event list \<Rightarrow> u32 list" where
  "frames_allocated evs = concat (map ev_allocated evs)"
definition frames_put :: "event list \<Rightarrow> u32 list" where
  "frames_put evs = concat (map ev_put evs)"
definition pages_mapped :: "event list \<Rightarrow> (u32 \<times> u32) list" where
  "pages_mapped evs = concat (map ev_mapped evs)"
definition pages_unmapped :: "event list \<Rightarrow> (u32 \<times> u32) list" where
  "pages_unmapped evs = concat (map ev_unmapped evs)"
definition tss_writes :: "event list \<Rightarrow> u32 list" where
  "tss_writes evs = concat (map ev_tss evs)"

subsection \<open>The events of \<open>destroy_process\<close>\<close>

text \<open>
  The events of the loop of \<open>destroy_process\<close> for the stack page at \<open>v\<close> (the lookup in the
  kernel page directory, followed by \<open>put_frame\<close> when it found a frame), the pages that the
  loop visits for a stack of \<open>stack_size\<close> bytes below \<open>stack_top\<close>, and the state and the
  event of the release of the memory descriptor.
\<close>

definition stack_page_events :: "kstate \<Rightarrow> u32 \<Rightarrow> event list" where
  "stack_page_events s v =
     EvGetPhys (g_kernel_page_directory_phys s) v (paging_lookup s (g_kernel_page_directory_phys s) v) #
     (case paging_lookup s (g_kernel_page_directory_phys s) v of
        Some p \<Rightarrow> if p \<noteq> 0 then [EvPutFrame p] else []
      | None \<Rightarrow> [])"

definition stack_pages :: "u32 \<Rightarrow> u32 \<Rightarrow> u32 list" where
  "stack_pages stack_size stack_top =
     (if stack_size \<le> stack_top
      then map (\<lambda>k. (stack_top - stack_size) + of_nat k * PAGE_SIZE) [0 ..< unat stack_size div 4096]
      else [])"

definition mm_released :: "pcb_t \<Rightarrow> kstate \<Rightarrow> kstate" where
  "mm_released pcb s = (case mm pcb of Some m \<Rightarrow> destroy_mm m s | None \<Rightarrow> s)"

definition mm_events :: "pcb_t \<Rightarrow> event list" where
  "mm_events pcb = (case mm pcb of Some m \<Rightarrow> [EvDestroyMm (pgd_phys m)] | None \<Rightarrow> [])"

subsection \<open>The ELF loader seen from outside\<close>

text \<open>
  The program headers that the loader walks; the segments it considers (\<open>PT_LOAD\<close> with a
  non-zero memory size); the frames of the allocator being page-aligned; the byte that a
  process sees at a virtual address through its page directory.
\<close>

definition program_headers :: "u8 list \<Rightarrow> Elf32_Phdr list" where
  "program_headers file_data =
     map (phdr_table file_data) [0 ..< unat (e_phnum (ehdr_of file_data))]"

definition loadable :: "Elf32_Phdr \<Rightarrow> bool" where
  "loadable ph \<longleftrightarrow> p_type ph = PT_LOAD \<and> p_memsz ph \<noteq> 0"

definition pool_aligned :: "kstate \<Rightarrow> bool" where
  "pool_aligned s \<longleftrightarrow> list_all (\<lambda>f. f mod PAGE_SIZE = 0) (pool s)"

definition user_byte :: "kstate \<Rightarrow> u32 \<Rightarrow> u32 \<Rightarrow> u8 option" where
  "user_byte s pd v =
     (case paging_lookup s pd v of
        None \<Rightarrow> None
      | Some pa \<Rightarrow> Some (frame_bytes s (pa AND PAGING_ADDR_MASK) (unat (pa AND (PAGE_SIZE - 1)))))"

text \<open>
  The spec's side of the loader, on natural numbers: the maximum of \<open>vaddr + memsz\<close> over
  the considered segments (0 when there is none), rounding up to a page, and the violations
  of a segment's geometry (the span \<open>[vaddr, vaddr + memsz)\<close> reaches above
  \<open>KERNEL_VIRT_BASE\<close>, which includes wrapping around; \<open>filesz > memsz\<close>; the file slice
  \<open>[offset, offset + filesz)\<close> ends outside a file of \<open>file_size\<close> bytes).
\<close>

definition spec_max_end :: "Elf32_Phdr list \<Rightarrow> nat" where
  "spec_max_end phs =
     fold max (map (\<lambda>ph. unat (p_vaddr ph) + unat (p_memsz ph)) (filter loadable phs)) 0"

definition spec_page_align_up :: "nat \<Rightarrow> nat" where
  "spec_page_align_up n = (n + 4095) div 4096 * 4096"

definition spec_segment_violation :: "nat \<Rightarrow> Elf32_Phdr \<Rightarrow> bool" where
  "spec_segment_violation file_size ph \<longleftrightarrow>
     unat KERNEL_VIRT_BASE < unat (p_vaddr ph) + unat (p_memsz ph) \<or>
     unat (p_memsz ph) < unat (p_filesz ph) \<or>
     file_size < unat (p_offset ph) + unat (p_filesz ph)"

subsection \<open>What a sequence of steps leaves alone\<close>

text \<open>
  Between two states: the steps in between wrote nothing to the TSS and left the kernel page
  directory pointer and the files alone (\<open>quiet\<close>); they left the last entry of every page
  directory alone (\<open>rec_kept\<close>); they called \<open>paging_unmap_range\<close> on the kernel stack of
  \<open>PROCESS_KSTACK_SIZE\<close> bytes below \<open>stack_top\<close>, in the kernel page directory
  (\<open>stack_unmapped\<close>). \<open>iret_frame s esp\<close> is the list of the five 32-bit words of the kernel
  stack memory at \<open>esp\<close>, \<open>esp + 4\<close>, ..., \<open>esp + 16\<close>. \<open>kernel_stack_events kpd base fs\<close> is
  the list of the calls of an \<open>allocate_kernel_stack\<close> that succeeds with the frames \<open>fs\<close>
  and the stack at \<open>base\<close>: the array of frames is allocated, the frames are allocated, each
  is mapped at its page in the kernel page directory, the array is freed. \<open>torn_down\<close>: the
  steps in between end with the release of the kernel stack below \<open>stack_top\<close> (for each
  stack page the lookup and the \<open>put_frame\<close> of the frame found, then the unmapping of the
  range), of the directory frame \<open>pd\<close> and of the PCB, after events without a TSS write.
\<close>

definition quiet :: "kstate \<Rightarrow> kstate \<Rightarrow> bool" where
  "quiet s s' \<longleftrightarrow>
     tss_esp0 s' = tss_esp0 s \<and>
     g_kernel_page_directory_phys s' = g_kernel_page_directory_phys s \<and>
     files s' = files s \<and>
     (\<exists>evs. trace s' = trace s @ evs \<and> tss_writes evs = [])"

definition rec_kept :: "kstate \<Rightarrow> kstate \<Rightarrow> bool" where
  "rec_kept s s' \<longleftrightarrow>
     (\<forall>pd. pd_words s' pd RECURSIVE_PDE_INDEX = pd_words s pd RECURSIVE_PDE_INDEX)"

definition stack_unmapped :: "config \<Rightarrow> u32 \<Rightarrow> kstate \<Rightarrow> kstate \<Rightarrow> bool" where
  "stack_unmapped cfg stack_top s s' \<longleftrightarrow>
     (\<exists>evs. trace s' = trace s @ evs \<and>
        EvUnmapRange (g_kernel_page_directory_phys s) (stack_top - PROCESS_KSTACK_SIZE cfg)
          (PROCESS_KSTACK_SIZE cfg) \<in> set evs)"

definition iret_frame :: "kstate \<Rightarrow> u32 \<Rightarrow> u32 list" where
  "iret_frame s esp = map (\<lambda>k. kvmem s (esp + 4 * of_nat k)) [0 ..< 5]"

definition kernel_stack_events :: "u32 \<Rightarrow> u32 \<Rightarrow> u32 list \<Rightarrow> event list" where
  "kernel_stack_events kpd base fs =
     EvKmalloc ObjFrameList True # map EvFrameAlloc fs @
     map (\<lambda>(k, f). EvMapSingle kpd (base + of_nat k * PAGE_SIZE) f PTE_KERNEL_DATA_FLAGS MapOK)
       (zip [0 ..< length fs] fs) @
     [EvKfree ObjFrameList]"

definition torn_down :: "config \<Rightarrow> u32 \<Rightarrow> u32 \<Rightarrow> u32 \<Rightarrow> kstate \<Rightarrow> kstate \<Rightarrow> bool" where
  "torn_down cfg stack_top pd pcb_pid s s' \<longleftrightarrow>
     (\<exists>mid sd. trace s' = trace s @ mid @
          concat (map (stack_page_events sd) (stack_pages (PROCESS_KSTACK_SIZE cfg) stack_top)) @
          [EvUnmapRange (g_kernel_page_directory_phys s) (stack_top - PROCESS_KSTACK_SIZE cfg)
             (PROCESS_KSTACK_SIZE cfg),
           EvPutFrame pd, EvKfree (ObjPcb pcb_pid)] \<and>
        tss_writes mid = [] \<and>
        g_kernel_page_directory_phys sd = g_kernel_page_directory_phys s)"

text \<open>
  Two kernel states that agree on everything but the contents of the data frames and the
  files.
\<close>

definition same_but_data :: "kstate \<Rightarrow> kstate \<Rightarrow> bool" where
  "same_but_data s t \<longleftrightarrow>
     pool t = pool s \<and> refcount t = refcount s \<and> pd_words t = pd_words s \<and>
     pt_words t = pt_words s \<and> temp_slot t = temp_slot s \<and> kvmem t = kvmem s \<and>
     tss_esp0 t = tss_esp0 s \<and>
     g_kernel_page_directory_phys t = g_kernel_page_directory_phys s \<and>
     g_nx_supported t = g_nx_supported s \<and> next_pid t = next_pid s \<and>
     g_next_kernel_stack_virt_base t = g_next_kernel_stack_virt_base s \<and>
     kmalloc_script t = kmalloc_script s \<and> temp_map_script t = temp_map_script s \<and>
     trace t = trace s"

subsection \<open>Concrete inputs\<close>

text \<open>
  An ELF32 image built from its entry point and its program headers (header at offset 0,
  program header table at offset 52), a kernel state after boot with a given list of free
  frames and the image stored as \<open>/kernel.bin\<close>, a fresh memory descriptor as \<open>create_mm\<close>
  returns it, and a configuration. They are the concrete inputs at which the theorems below
  are instantiated.
\<close>

definition le16_bytes :: "u16 \<Rightarrow> u8 list" where
  "le16_bytes w = [ucast w, ucast (drop_bit 8 w)]"

definition le32_bytes :: "u32 \<Rightarrow> u8 list" where
  "le32_bytes w = [ucast w, ucast (drop_bit 8 w), ucast (drop_bit 16 w), ucast (drop_bit 24 w)]"

definition phdr_bytes :: "Elf32_Phdr \<Rightarrow> u8 list" where
  "phdr_bytes ph =
     le32_bytes (p_type ph) @ le32_bytes (p_offset ph) @ le32_bytes (p_vaddr ph) @
     le32_bytes (p_paddr ph) @ le32_bytes (p_filesz ph) @ le32_bytes (p_memsz ph) @
     le32_bytes (p_flags ph) @ le32_bytes (p_align ph)"

definition elf_image :: "u32 \<Rightarrow> Elf32_Phdr list \<Rightarrow> u8 list" where
  "elf_image entry phs =
     [0x7F, 0x45, 0x4C, 0x46, 1, 1, 1, 0, 0, 0, 0, 0, 0, 0, 0, 0] @
     le16_bytes 2 @ le16_bytes 3 @ le32_bytes 1 @ le32_bytes entry @ le32_bytes 52 @
     le32_bytes 0 @ le32_bytes 0 @ le16_bytes 52 @ le16_bytes 32 @
     le16_bytes (of_nat (length phs)) @ le16_bytes 0 @ le16_bytes 0 @ le16_bytes 0 @
     concat (map phdr_bytes phs)"

definition load_segment :: "u32 \<Rightarrow> u32 \<Rightarrow> u32 \<Rightarrow> u32 \<Rightarrow> Elf32_Phdr" where
  "load_segment vaddr off filesz memsz =
     \<lparr>p_type = 1, p_offset = off, p_vaddr = vaddr, p_paddr = vaddr, p_filesz = filesz,
      p_memsz = memsz, p_flags = 5, p_align = 0x1000\<rparr>"

definition boot_state :: "u32 list \<Rightarrow> u8 list \<Rightarrow> kstate" where
  "boot_state frames elf =
     \<lparr>pool = frames, refcount = (\<lambda>_. 0), pd_words = (\<lambda>_ _. 0), pt_words = (\<lambda>_ _. 0),
      frame_bytes = (\<lambda>_ _. 0), temp_slot = None, kvmem = (\<lambda>_. 0), tss_esp0 = 0,
      g_kernel_page_directory_phys = 0x1000, g_nx_supported = True, next_pid = 1,
      g_next_kernel_stack_virt_base = 0xE0000000,
      files = (\<lambda>p. if p = ''/kernel.bin'' then Some elf else None),
      kmalloc_script = [], temp_map_script = [], trace = []\<rparr>"

definition new_mm :: "u32 \<Rightarrow> mm_struct" where
  "new_mm pd = \<lparr>pgd_phys = pd, vmas = [], start_brk = 0, end_brk = 0\<rparr>"

definition test_config :: config where
  "test_config =
     \<lparr>PROCESS_KSTACK_SIZE = 0x2000, USER_STACK_TOP_VIRT_ADDR = 0xC0000000,
      USER_STACK_BOTTOM_VIRT = 0xBFC00000, GDT_USER_CODE_SELECTOR = 0x18,
      GDT_USER_DATA_SELECTOR = 0x20\<rparr>"

section \<open>Properties of the boot-info parser\<close>

lemma unat_ucast_32_64: "unat (ucast (w :: u32) :: u64) = unat w"
  by (simp add: unsigned_ucast_eq take_bit_nat_eq_self order_less_trans [OF unsigned_less])

lemma adjusted_small:
  assumes a: "unat (addr e) < 2 ^ 32" and f: "unat (addr e) + unat (len e) \<le> 2 ^ 32"
  shows "unat (snd (adjusted kend e)) = snd (spec_trim (unat kend) e)"
    and "0 < unat (snd (adjusted kend e)) \<Longrightarrow>
           unat (fst (adjusted kend e)) = fst (spec_trim (unat kend) e)"
proof -
  have eps: "unat (ucast (addr e) :: u32) = unat (addr e)"
    using a by (simp add: unsigned_ucast_eq take_bit_nat_eq_self)
  have k: "unat kend < 2 ^ 32" using unsigned_less [of kend] by simp
  have sum: "unat ((ucast (ucast (addr e) :: u32) :: u64) + len e) = unat (addr e) + unat (len e)"
    using f by (simp add: unat_plus_if' unat_ucast_32_64 eps)
  show "unat (snd (adjusted kend e)) = snd (spec_trim (unat kend) e)"
    using a f k
    by (auto simp: adjusted_def spec_trim_def Let_def word_less_nat_alt word_le_nat_alt eps sum
          unat_ucast_32_64 unat_sub_if' max_def)
  show "0 < unat (snd (adjusted kend e)) \<Longrightarrow>
          unat (fst (adjusted kend e)) = fst (spec_trim (unat kend) e)"
    using a f k
    by (auto simp: adjusted_def spec_trim_def Let_def word_less_nat_alt word_le_nat_alt eps sum
          unat_ucast_32_64 unat_sub_if' max_def split: if_splits)
qed

lemma adjusted_edge:
  assumes a: "unat (addr e) = 2 ^ 32" and l: "unat (len e) = 0"
  shows "unat (snd (adjusted kend e)) = 0"
proof -
  have "unat (ucast (addr e) :: u32) = take_bit 32 (unat (addr e))"
    by (simp add: unsigned_ucast_eq)
  then have eps: "(ucast (addr e) :: u32) = 0"
    using a by (simp add: unat_eq_zero)
  have l0: "len e = 0" using l by (simp add: unat_eq_zero)
  show ?thesis
    by (auto simp: adjusted_def Let_def eps l0 word_less_nat_alt unat_ucast_32_64)
qed

lemma adjusted_spec:
  assumes f: "unat (addr e) + unat (len e) \<le> 2 ^ 32"
  shows "unat (snd (adjusted kend e)) = snd (spec_trim (unat kend) e)"
    and "0 < unat (snd (adjusted kend e)) \<Longrightarrow>
           unat (fst (adjusted kend e)) = fst (spec_trim (unat kend) e)"
proof -
  consider "unat (addr e) < 2 ^ 32" | "unat (addr e) = 2 ^ 32" "unat (len e) = 0"
    using f by linarith
  then have both: "unat (snd (adjusted kend e)) = snd (spec_trim (unat kend) e) \<and>
    (0 < unat (snd (adjusted kend e)) \<longrightarrow>
       unat (fst (adjusted kend e)) = fst (spec_trim (unat kend) e))"
  proof cases
    case 1
    then show ?thesis using adjusted_small [OF 1 f] by simp
  next
    case 2
    then show ?thesis using adjusted_edge [OF 2] by (simp add: spec_trim_def)
  qed
  from both show "unat (snd (adjusted kend e)) = snd (spec_trim (unat kend) e)" by simp
  from both show "0 < unat (snd (adjusted kend e)) \<Longrightarrow>
      unat (fst (adjusted kend e)) = fst (spec_trim (unat kend) e)" by simp
qed

lemma mmap_entry_step_eq:
  "mmap_entry_step kend e best =
     (if spec_considered e
      then (if snd (adjusted kend e) > snd best then adjusted kend e else best)
      else best)"
  by (simp add: mmap_entry_step_def spec_considered_def adjusted_def Let_def
        MULTIBOOT_MEMORY_AVAILABLE_def word_le_nat_alt)

lemma trim_size_bound:
  "unat (addr e) + unat (len e) \<le> 2 ^ 32 \<Longrightarrow> 0x100000 \<le> unat (addr e) \<Longrightarrow>
     snd (spec_trim k e) < 2 ^ 32"
  by (auto simp: spec_trim_def max_def)

lemma mmap_entry_step_inv:
  assumes inv: "best_inv S best"
    and f: "spec_considered e \<longrightarrow> unat (addr e) + unat (len e) \<le> 2 ^ 32"
  shows "best_inv (S \<union> set (spec_regions (unat kend) [e])) (mmap_entry_step kend e best)"
proof (cases "spec_considered e")
  case False
  then show ?thesis using inv by (simp add: mmap_entry_step_eq spec_regions_def)
next
  case True
  with f have fit: "unat (addr e) + unat (len e) \<le> 2 ^ 32" by simp
  from True have lo: "0x100000 \<le> unat (addr e)" by (simp add: spec_considered_def)
  note sz = adjusted_spec(1) [OF fit, of kend] and bs = adjusted_spec(2) [OF fit, of kend]
  have bound: "snd (spec_trim (unat kend) e) < 2 ^ 32" using trim_size_bound [OF fit lo] .
  have reg: "set (spec_regions (unat kend) [e]) = {spec_trim (unat kend) e}"
    using True by (simp add: spec_regions_def)
  show ?thesis
  proof (cases "snd (adjusted kend e) > snd best")
    case gt: True
    then have step: "mmap_entry_step kend e best = adjusted kend e"
      using True by (simp add: mmap_entry_step_eq)
    from gt have lt: "unat (snd best) < unat (snd (adjusted kend e))"
      by (simp add: word_less_nat_alt)
    then have pos: "0 < unat (snd (adjusted kend e))" by simp
    have pair: "(unat (fst (adjusted kend e)), unat (snd (adjusted kend e))) = spec_trim (unat kend) e"
      using sz bs [OF pos] by (simp add: prod_eq_iff)
    show ?thesis
      unfolding step best_inv_def reg
      using inv lt bound sz pair by (auto simp: best_inv_def)
  next
    case ngt: False
    then have step: "mmap_entry_step kend e best = best"
      using True by (simp add: mmap_entry_step_eq)
    from ngt have le: "unat (snd (adjusted kend e)) \<le> unat (snd best)"
      by (simp add: word_less_nat_alt)
    show ?thesis
      unfolding step best_inv_def reg
      using inv le sz by (auto simp: best_inv_def)
  qed
qed

lemma spec_regions_Cons: "spec_regions k (e # es) = spec_regions k [e] @ spec_regions k es"
  by (simp add: spec_regions_def)

lemma mmap_walk_inv:
  "fits_32bit es \<Longrightarrow> best_inv S best \<Longrightarrow>
     best_inv (S \<union> set (spec_regions (unat kend) es)) (mmap_walk kend es best)"
proof (induction es arbitrary: S best)
  case Nil
  then show ?case by (simp add: spec_regions_def)
next
  case (Cons e es)
  from Cons.prems(1) have fe: "spec_considered e \<longrightarrow> unat (addr e) + unat (len e) \<le> 2 ^ 32"
    and fes: "fits_32bit es" by (simp_all add: fits_32bit_def)
  have "best_inv ((S \<union> set (spec_regions (unat kend) [e])) \<union> set (spec_regions (unat kend) es))
          (mmap_walk kend es (mmap_entry_step kend e best))"
    by (rule Cons.IH [OF fes mmap_entry_step_inv [OF Cons.prems(2) fe]])
  then show ?case
    by (simp add: spec_regions_Cons [of _ e es] Un_assoc)
qed

lemma largest_region_fits:
  assumes "fits_32bit es"
  shows "largest_region_claim kend es"
proof -
  have "best_inv {} (0, 0)" by (simp add: best_inv_def)
  from mmap_walk_inv [OF assms this, of kend]
  have inv: "best_inv (set (spec_regions (unat kend) es)) (mmap_walk kend es (0, 0))" by simp
  obtain b n where best: "mmap_walk kend es (0, 0) = (b, n)" by (cases "mmap_walk kend es (0, 0)")
  from inv have small: "unat n < 2 ^ 32" by (simp add: best_inv_def best)
  then have tr: "unat (ucast n :: u32) = unat n"
    by (simp add: unsigned_ucast_eq take_bit_nat_eq_self)
  show ?thesis
  proof (cases "n = 0")
    case True
    then show ?thesis using inv
      by (auto simp: largest_region_claim_def find_largest_memory_area_def best best_inv_def)
  next
    case False
    then have "0 < n" by (simp add: word_greater_zero_iff)
    moreover have "0 < unat n" using False by (simp add: unat_gt_0)
    ultimately show ?thesis using inv tr
      by (auto simp: largest_region_claim_def find_largest_memory_area_def best best_inv_def)
  qed
qed

lemma find_largest_scenario:
  "find_largest_memory_area 0x200000
     [\<lparr>addr = 0x100000, len = 0x10000, type = 1\<rparr>, \<lparr>addr = 0x400000, len = 0x800000, type = 1\<rparr>]
   = Some (0x400000, 0x800000)"
  by (simp add: find_largest_memory_area_def mmap_entry_step_def MULTIBOOT_MEMORY_AVAILABLE_def
        Let_def)

text \<open>
  Claim C3, as the code has it. For every Multiboot memory map whose considered entries
  (AVAILABLE, start at or above 0x100000) end at or below 4 GiB, \<open>find_largest_memory_area\<close>
  trims from each considered entry the part below the end of the kernel image and returns
  the base and size of a largest remaining region (it fails when nothing remains); and for
  the entries (0x100000, 0x10000, 1) and (0x400000, 0x800000, 1) with the kernel image ending
  at 0x200000 it returns base 0x400000 and size 0x800000.
\<close>

theorem find_largest_memory_area_32bit:
  "fits_32bit es \<Longrightarrow>
     largest_region_claim kend es \<and>
     find_largest_memory_area 0x200000
       [\<lparr>addr = 0x100000, len = 0x10000, type = 1\<rparr>, \<lparr>addr = 0x400000, len = 0x800000, type = 1\<rparr>]
     = Some (0x400000, 0x800000)"
  using largest_region_fits find_largest_scenario by simp

theorem find_largest_memory_area_32bit_witness:
  "fits_32bit [\<lparr>addr = 0x100000, len = 0x10000, type = 1\<rparr>, \<lparr>addr = 0x400000, len = 0x800000, type = 1\<rparr>]
   \<and> largest_region_claim 0x200000
       [\<lparr>addr = 0x100000, len = 0x10000, type = 1\<rparr>, \<lparr>addr = 0x400000, len = 0x800000, type = 1\<rparr>]"
proof -
  have h: "fits_32bit [\<lparr>addr = 0x100000, len = 0x10000, type = 1\<rparr>,
                       \<lparr>addr = 0x400000, len = 0x800000, type = 1\<rparr>]"
    by (simp add: fits_32bit_def)
  from find_largest_memory_area_32bit [OF h, of "0x200000"] h show ?thesis by simp
qed

text \<open>
  Claim C3 as stated, for every memory map, fails: an AVAILABLE entry at 4 GiB (base
  0x100000000, length 0x40000000) loses the upper half of its address in the cast to
  \<open>uintptr_t\<close>; with the kernel image ending at 0x200000 the function returns base 0x200000
  and size 0x3FE00000, which is no remaining region of the map.
\<close>

theorem find_largest_memory_area_above_4g:
  "\<not> largest_region_claim 0x200000 [\<lparr>addr = 0x100000000, len = 0x40000000, type = 1\<rparr>]
   \<and> find_largest_memory_area 0x200000 [\<lparr>addr = 0x100000000, len = 0x40000000, type = 1\<rparr>]
       = Some (0x200000, 0x3FE00000)"
  by (simp add: largest_region_claim_def find_largest_memory_area_def mmap_entry_step_def
        MULTIBOOT_MEMORY_AVAILABLE_def Let_def spec_regions_def spec_considered_def spec_trim_def)

section \<open>Properties of the collaborators\<close>

text \<open>What each operation does to the trace and to the global variables.\<close>

lemmas ev_filters = frames_allocated_def frames_put_def pages_mapped_def pages_unmapped_def tss_writes_def

lemma fold_preserves: "(\<And>x s. P (f x s) = P s) \<Longrightarrow> P (fold f xs s) = P s"
  by (induction xs arbitrary: s) simp_all

lemma log_fields [simp]:
  "trace (log e s) = trace s @ [e]"
  "g_next_kernel_stack_virt_base (log e s) = g_next_kernel_stack_virt_base s"
  "g_kernel_page_directory_phys (log e s) = g_kernel_page_directory_phys s"
  "tss_esp0 (log e s) = tss_esp0 s"
  "files (log e s) = files s"
  "pool (log e s) = pool s"
  "pd_words (log e s) = pd_words s"
  "pt_words (log e s) = pt_words s"
  "kvmem (log e s) = kvmem s"
  "g_nx_supported (log e s) = g_nx_supported s"
  by (simp_all add: log_def)

lemma put_frame_raw_fields [simp]:
  "trace (put_frame_raw p s) = trace s"
  "g_next_kernel_stack_virt_base (put_frame_raw p s) = g_next_kernel_stack_virt_base s"
  "g_kernel_page_directory_phys (put_frame_raw p s) = g_kernel_page_directory_phys s"
  "tss_esp0 (put_frame_raw p s) = tss_esp0 s"
  "files (put_frame_raw p s) = files s"
  "pd_words (put_frame_raw p s) = pd_words s"
  "pt_words (put_frame_raw p s) = pt_words s"
  "kvmem (put_frame_raw p s) = kvmem s"
  "g_nx_supported (put_frame_raw p s) = g_nx_supported s"
  by (simp_all add: put_frame_raw_def)

lemma frame_alloc_raw_fields [simp]:
  "trace (snd (frame_alloc_raw s)) = trace s"
  "g_next_kernel_stack_virt_base (snd (frame_alloc_raw s)) = g_next_kernel_stack_virt_base s"
  "g_kernel_page_directory_phys (snd (frame_alloc_raw s)) = g_kernel_page_directory_phys s"
  "tss_esp0 (snd (frame_alloc_raw s)) = tss_esp0 s"
  "files (snd (frame_alloc_raw s)) = files s"
  "pd_words (snd (frame_alloc_raw s)) = pd_words s"
  "pt_words (snd (frame_alloc_raw s)) = pt_words s"
  "kvmem (snd (frame_alloc_raw s)) = kvmem s"
  "g_nx_supported (snd (frame_alloc_raw s)) = g_nx_supported s"
  by (simp_all add: frame_alloc_raw_def split: list.splits)

lemma write_pte_fields [simp]:
  "trace (write_pte pt v p fl s) = trace s"
  "g_next_kernel_stack_virt_base (write_pte pt v p fl s) = g_next_kernel_stack_virt_base s"
  "g_kernel_page_directory_phys (write_pte pt v p fl s) = g_kernel_page_directory_phys s"
  "tss_esp0 (write_pte pt v p fl s) = tss_esp0 s"
  "files (write_pte pt v p fl s) = files s"
  "pd_words (write_pte pt v p fl s) = pd_words s"
  "kvmem (write_pte pt v p fl s) = kvmem s"
  "g_nx_supported (write_pte pt v p fl s) = g_nx_supported s"
  by (simp_all add: write_pte_def Let_def)

lemma map_single_raw_fields [simp]:
  "trace (snd (map_single_raw pd v p fl s)) = trace s"
  "g_next_kernel_stack_virt_base (snd (map_single_raw pd v p fl s)) = g_next_kernel_stack_virt_base s"
  "g_kernel_page_directory_phys (snd (map_single_raw pd v p fl s)) = g_kernel_page_directory_phys s"
  "tss_esp0 (snd (map_single_raw pd v p fl s)) = tss_esp0 s"
  "files (snd (map_single_raw pd v p fl s)) = files s"
  "kvmem (snd (map_single_raw pd v p fl s)) = kvmem s"
  "g_nx_supported (snd (map_single_raw pd v p fl s)) = g_nx_supported s"
  by (simp_all add: map_single_raw_def split_beta)

lemma unmap_page_fields [simp]:
  "trace (unmap_page pd v s) = trace s"
  "g_next_kernel_stack_virt_base (unmap_page pd v s) = g_next_kernel_stack_virt_base s"
  "g_kernel_page_directory_phys (unmap_page pd v s) = g_kernel_page_directory_phys s"
  "tss_esp0 (unmap_page pd v s) = tss_esp0 s"
  "files (unmap_page pd v s) = files s"
  "pd_words (unmap_page pd v s) = pd_words s"
  "kvmem (unmap_page pd v s) = kvmem s"
  "g_nx_supported (unmap_page pd v s) = g_nx_supported s"
  by (simp_all add: unmap_page_def Let_def)

lemma paging_unmap_range_fields [simp]:
  "trace (paging_unmap_range pd v n s) = trace s @ [EvUnmapRange pd v n]"
  "g_next_kernel_stack_virt_base (paging_unmap_range pd v n s) = g_next_kernel_stack_virt_base s"
  "g_kernel_page_directory_phys (paging_unmap_range pd v n s) = g_kernel_page_directory_phys s"
  "tss_esp0 (paging_unmap_range pd v n s) = tss_esp0 s"
  "files (paging_unmap_range pd v n s) = files s"
  "pd_words (paging_unmap_range pd v n s) = pd_words s"
  "kvmem (paging_unmap_range pd v n s) = kvmem s"
  "g_nx_supported (paging_unmap_range pd v n s) = g_nx_supported s"
  by (simp_all add: paging_unmap_range_def fold_preserves)

lemma frame_alloc_fields [simp]:
  "trace (snd (frame_alloc s)) = trace s @ [EvFrameAlloc (fst (frame_alloc s))]"
  "g_next_kernel_stack_virt_base (snd (frame_alloc s)) = g_next_kernel_stack_virt_base s"
  "g_kernel_page_directory_phys (snd (frame_alloc s)) = g_kernel_page_directory_phys s"
  "tss_esp0 (snd (frame_alloc s)) = tss_esp0 s"
  "files (snd (frame_alloc s)) = files s"
  "pd_words (snd (frame_alloc s)) = pd_words s"
  "pt_words (snd (frame_alloc s)) = pt_words s"
  "kvmem (snd (frame_alloc s)) = kvmem s"
  "g_nx_supported (snd (frame_alloc s)) = g_nx_supported s"
  by (simp_all add: frame_alloc_def split_beta)

lemma put_frame_fields [simp]:
  "trace (put_frame p s) = trace s @ [EvPutFrame p]"
  "g_next_kernel_stack_virt_base (put_frame p s) = g_next_kernel_stack_virt_base s"
  "g_kernel_page_directory_phys (put_frame p s) = g_kernel_page_directory_phys s"
  "tss_esp0 (put_frame p s) = tss_esp0 s"
  "files (put_frame p s) = files s"
  "pd_words (put_frame p s) = pd_words s"
  "pt_words (put_frame p s) = pt_words s"
  "kvmem (put_frame p s) = kvmem s"
  "g_nx_supported (put_frame p s) = g_nx_supported s"
  by (simp_all add: put_frame_def)

lemma paging_map_single_4k_fields [simp]:
  "trace (snd (paging_map_single_4k pd v p fl s)) =
     trace s @ [EvMapSingle pd v p fl (fst (paging_map_single_4k pd v p fl s))]"
  "g_next_kernel_stack_virt_base (snd (paging_map_single_4k pd v p fl s)) = g_next_kernel_stack_virt_base s"
  "g_kernel_page_directory_phys (snd (paging_map_single_4k pd v p fl s)) = g_kernel_page_directory_phys s"
  "tss_esp0 (snd (paging_map_single_4k pd v p fl s)) = tss_esp0 s"
  "files (snd (paging_map_single_4k pd v p fl s)) = files s"
  "kvmem (snd (paging_map_single_4k pd v p fl s)) = kvmem s"
  "g_nx_supported (snd (paging_map_single_4k pd v p fl s)) = g_nx_supported s"
  by (simp_all add: paging_map_single_4k_def split_beta)

lemma kmalloc_fields [simp]:
  "trace (snd (kmalloc obj s)) = trace s @ [EvKmalloc obj (fst (kmalloc obj s))]"
  "g_next_kernel_stack_virt_base (snd (kmalloc obj s)) = g_next_kernel_stack_virt_base s"
  "g_kernel_page_directory_phys (snd (kmalloc obj s)) = g_kernel_page_directory_phys s"
  "tss_esp0 (snd (kmalloc obj s)) = tss_esp0 s"
  "files (snd (kmalloc obj s)) = files s"
  "pool (snd (kmalloc obj s)) = pool s"
  "pd_words (snd (kmalloc obj s)) = pd_words s"
  "pt_words (snd (kmalloc obj s)) = pt_words s"
  "kvmem (snd (kmalloc obj s)) = kvmem s"
  "g_nx_supported (snd (kmalloc obj s)) = g_nx_supported s"
  by (simp_all add: kmalloc_def split_beta)

lemma kfree_fields [simp]:
  "trace (kfree obj s) = trace s @ [EvKfree obj]"
  "g_next_kernel_stack_virt_base (kfree obj s) = g_next_kernel_stack_virt_base s"
  "g_kernel_page_directory_phys (kfree obj s) = g_kernel_page_directory_phys s"
  "tss_esp0 (kfree obj s) = tss_esp0 s"
  "files (kfree obj s) = files s"
  "pool (kfree obj s) = pool s"
  "pd_words (kfree obj s) = pd_words s"
  "pt_words (kfree obj s) = pt_words s"
  "kvmem (kfree obj s) = kvmem s"
  "g_nx_supported (kfree obj s) = g_nx_supported s"
  by (simp_all add: kfree_def)

lemma put_frames_fields [simp]:
  "trace (put_frames fs s) = trace s @ map EvPutFrame fs"
  "g_next_kernel_stack_virt_base (put_frames fs s) = g_next_kernel_stack_virt_base s"
  "g_kernel_page_directory_phys (put_frames fs s) = g_kernel_page_directory_phys s"
  "tss_esp0 (put_frames fs s) = tss_esp0 s"
  "files (put_frames fs s) = files s"
  "pd_words (put_frames fs s) = pd_words s"
  "pt_words (put_frames fs s) = pt_words s"
  "kvmem (put_frames fs s) = kvmem s"
  "g_nx_supported (put_frames fs s) = g_nx_supported s"
  unfolding put_frames_def
  by (induction fs arbitrary: s) simp_all

lemma filters_append [simp]:
  "frames_allocated (xs @ ys) = frames_allocated xs @ frames_allocated ys"
  "frames_put (xs @ ys) = frames_put xs @ frames_put ys"
  "pages_mapped (xs @ ys) = pages_mapped xs @ pages_mapped ys"
  "pages_unmapped (xs @ ys) = pages_unmapped xs @ pages_unmapped ys"
  "tss_writes (xs @ ys) = tss_writes xs @ tss_writes ys"
  by (simp_all add: ev_filters)

lemma filters_Nil [simp]:
  "frames_allocated [] = []" "frames_put [] = []" "pages_mapped [] = []" "pages_unmapped [] = []"
  "tss_writes [] = []"
  by (simp_all add: ev_filters)

lemma filters_Cons [simp]:
  "frames_allocated (e # xs) = ev_allocated e @ frames_allocated xs"
  "frames_put (e # xs) = ev_put e @ frames_put xs"
  "pages_mapped (e # xs) = ev_mapped e @ pages_mapped xs"
  "pages_unmapped (e # xs) = ev_unmapped e @ pages_unmapped xs"
  "tss_writes (e # xs) = ev_tss e @ tss_writes xs"
  by (simp_all add: ev_filters)

lemma filters_put_events [simp]:
  "frames_allocated (map EvPutFrame fs) = []"
  "frames_put (map EvPutFrame fs) = fs"
  "pages_mapped (map EvPutFrame fs) = []"
  "pages_unmapped (map EvPutFrame fs) = []"
  "tss_writes (map EvPutFrame fs) = []"
  by (induction fs) simp_all

lemma alloc_stack_frames_events:
  "alloc_stack_frames n acc s = (r, s') \<Longrightarrow>
     g_next_kernel_stack_virt_base s' = g_next_kernel_stack_virt_base s \<and>
     g_kernel_page_directory_phys s' = g_kernel_page_directory_phys s \<and>
     tss_esp0 s' = tss_esp0 s \<and> files s' = files s \<and>
     (\<exists>evs new. trace s' = trace s @ evs \<and> frames_allocated evs = new \<and> length new \<le> n \<and>
        pages_mapped evs = [] \<and> pages_unmapped evs = [] \<and> tss_writes evs = [] \<and>
        (\<forall>fs. r = Some fs \<longrightarrow> fs = acc @ new \<and> length new = n \<and> frames_put evs = []) \<and>
        (r = None \<longrightarrow> frames_put evs = acc @ new))"
proof (induction n arbitrary: acc s)
  case 0
  then show ?case by auto
next
  case (Suc n)
  obtain f s1 where fa: "frame_alloc s = (f, s1)" by (cases "frame_alloc s")
  have s1: "trace s1 = trace s @ [EvFrameAlloc f]"
    "g_next_kernel_stack_virt_base s1 = g_next_kernel_stack_virt_base s"
    "g_kernel_page_directory_phys s1 = g_kernel_page_directory_phys s"
    "tss_esp0 s1 = tss_esp0 s" "files s1 = files s"
    using frame_alloc_fields [of s] by (simp_all add: fa)
  show ?case
  proof (cases "f = 0")
    case True
    with Suc.prems fa have r: "r = None" "s' = put_frames acc s1" by auto
    show ?thesis
      unfolding r using s1 True
      by (auto intro!: exI [of _ "[EvFrameAlloc 0] @ map EvPutFrame acc"])
  next
    case False
    with Suc.prems fa have rec: "alloc_stack_frames n (acc @ [f]) s1 = (r, s')" by auto
    from Suc.IH [OF rec] obtain evs where
      g: "g_next_kernel_stack_virt_base s' = g_next_kernel_stack_virt_base s1"
         "g_kernel_page_directory_phys s' = g_kernel_page_directory_phys s1"
         "tss_esp0 s' = tss_esp0 s1" "files s' = files s1"
      and t: "trace s' = trace s1 @ evs" and l: "length (frames_allocated evs) \<le> n"
      and z: "pages_mapped evs = []" "pages_unmapped evs = []" "tss_writes evs = []"
      and c: "\<forall>fs. r = Some fs \<longrightarrow> fs = (acc @ [f]) @ frames_allocated evs \<and>
                 length (frames_allocated evs) = n \<and> frames_put evs = []"
         "r = None \<longrightarrow> frames_put evs = (acc @ [f]) @ frames_allocated evs"
      by auto
    show ?thesis
      using g t l z c s1 False
      by (auto intro!: exI [of _ "EvFrameAlloc f # evs"])
  qed
qed


lemma mask12: "(0xFFF :: u32) = mask 12"
  by (simp add: mask_eq_exp_minus_1)

lemma unat_mod_4096: "unat ((x :: u32) mod 4096) = unat x mod 4096"
  using unat_mod [of x 4096] by simp

lemma unat_and_fff: "unat ((x :: u32) AND 0xFFF) = unat x mod 4096"
proof -
  have "x AND mask 12 = take_bit 12 x" by (simp only: take_bit_eq_mask)
  moreover have "unat (take_bit 12 x) = take_bit 12 (unat x)" by (rule unsigned_take_bit_eq)
  ultimately show ?thesis unfolding mask12 by (simp only: take_bit_eq_mod) simp
qed

lemma and_not_mask12: "(x :: u32) AND NOT (mask 12) = push_bit 12 (drop_bit 12 x)"
  by (rule bit_eqI) (auto simp add: bit_simps)

lemma unat_and_not_fff: "unat ((x :: u32) AND NOT 0xFFF) = unat x div 4096 * 4096"
proof -
  have lt: "unat x < 2 ^ 32" using unsigned_less [of x] by simp
  have "unat (push_bit 12 (drop_bit 12 x)) = take_bit 32 (push_bit 12 (drop_bit 12 (unat x)))"
    by (simp add: unsigned_push_bit_eq unat_drop_bit_eq)
  also have "\<dots> = unat x div 4096 * 4096"
    using lt by (simp add: push_bit_eq_mult drop_bit_eq_div take_bit_nat_eq_self)
  finally show ?thesis unfolding mask12 and_not_mask12 .
qed

lemma unat_of_nat32: "j < 2 ^ 32 \<Longrightarrow> unat (of_nat j :: u32) = j"
  by (simp add: unat_of_nat)

lemma aligned_iff: "(x :: u32) mod PAGE_SIZE = 0 \<longleftrightarrow> unat x mod 4096 = 0"
  by (simp add: PAGE_SIZE_def word_unat_eq_iff unat_mod_4096)

lemma page_align_down_aligned: "unat x mod 4096 = 0 \<Longrightarrow> PAGE_ALIGN_DOWN x = x"
proof -
  assume a: "unat x mod 4096 = 0"
  have "unat (x AND NOT 0xFFF) = unat x div 4096 * 4096" by (rule unat_and_not_fff)
  also have "\<dots> = unat x" using a by (simp add: mod_eq_0_iff_dvd)
  finally have "x AND NOT 0xFFF = x" by (simp only: word_unat_eq_iff)
  then show ?thesis by (simp add: PAGE_ALIGN_DOWN_def PAGE_SIZE_def)
qed

lemma unat_page_mult: "j < 2 ^ 20 \<Longrightarrow> unat (of_nat j * PAGE_SIZE :: u32) = j * 4096"
proof -
  assume j: "j < 2 ^ 20"
  then have "unat (of_nat j :: u32) = j" by (simp add: unat_of_nat32)
  moreover have "unat (of_nat j :: u32) * unat (PAGE_SIZE) < 2 ^ 32"
    using j by (simp add: PAGE_SIZE_def unat_of_nat32)
  ultimately show ?thesis
    by (simp add: unat_mult_lem [THEN iffD1] PAGE_SIZE_def)
qed

lemma range_pages_aligned:
  assumes "unat base mod 4096 = 0" "j < 2 ^ 20"
  shows "range_pages base (of_nat j * PAGE_SIZE) = map (\<lambda>k. base + of_nat k * PAGE_SIZE) [0 ..< j]"
  using assms
  by (simp add: range_pages_def page_align_down_aligned unat_page_mult)
     (simp add: PAGE_SIZE_def unat_and_fff)

lemma map_stack_pages_events:
  "map_stack_pages base frames i rest s = (r, s') \<Longrightarrow>
     g_kernel_page_directory_phys s' = g_kernel_page_directory_phys s \<and>
     tss_esp0 s' = tss_esp0 s \<and> files s' = files s \<and>
     (\<exists>evs j. trace s' = trace s @ evs \<and> i \<le> j \<and> j \<le> i + length rest \<and>
        frames_allocated evs = [] \<and> tss_writes evs = [] \<and>
        pages_mapped evs =
          map (\<lambda>k. (g_kernel_page_directory_phys s, base + of_nat k * PAGE_SIZE)) [i ..< j] \<and>
        (if r then g_next_kernel_stack_virt_base s' = g_next_kernel_stack_virt_base s \<and>
                   j = i + length rest \<and> frames_put evs = [] \<and> pages_unmapped evs = []
         else g_next_kernel_stack_virt_base s' = base \<and> frames_put evs = frames \<and>
              pages_unmapped evs =
                (if 0 < j then map (Pair (g_kernel_page_directory_phys s))
                                 (range_pages base (of_nat j * PAGE_SIZE)) else [])))"
proof (induction rest arbitrary: i s)
  case Nil
  then show ?case by auto
next
  case (Cons p rest)
  let ?kpd = "g_kernel_page_directory_phys s"
  let ?v = "base + of_nat i * PAGE_SIZE"
  obtain mr s1 where m: "paging_map_single_4k ?kpd ?v p PTE_KERNEL_DATA_FLAGS s = (mr, s1)"
    by (cases "paging_map_single_4k ?kpd ?v p PTE_KERNEL_DATA_FLAGS s")
  have s1: "trace s1 = trace s @ [EvMapSingle ?kpd ?v p PTE_KERNEL_DATA_FLAGS mr]"
    "g_next_kernel_stack_virt_base s1 = g_next_kernel_stack_virt_base s"
    "g_kernel_page_directory_phys s1 = ?kpd"
    "tss_esp0 s1 = tss_esp0 s" "files s1 = files s"
    using paging_map_single_4k_fields [of ?kpd ?v p PTE_KERNEL_DATA_FLAGS s] by (simp_all add: m)
  show ?case
  proof (cases "mr = MapOK")
    case False
    with Cons.prems m have r: "\<not> r"
      and s': "s' = (kfree ObjFrameList (put_frames frames
                   (if 0 < i then paging_unmap_range (g_kernel_page_directory_phys s1) base
                           (of_nat i * PAGE_SIZE) s1 else s1)))
             \<lparr>g_next_kernel_stack_virt_base := base\<rparr>"
      by auto
    show ?thesis
      unfolding s' using r s1 False
      apply (intro conjI)
         apply simp
        apply simp
       apply simp
      apply (rule exI [of _ "[EvMapSingle ?kpd ?v p PTE_KERNEL_DATA_FLAGS mr] @
                (if 0 < i then [EvUnmapRange ?kpd base (of_nat i * PAGE_SIZE)] else []) @
                map EvPutFrame frames @ [EvKfree ObjFrameList]"])
      apply (rule exI [of _ i])
      apply simp
      done
  next
    case True
    with Cons.prems m have rec: "map_stack_pages base frames (Suc i) rest s1 = (r, s')" by auto
    from Cons.IH [OF rec] obtain evs j where
      g: "g_kernel_page_directory_phys s' = g_kernel_page_directory_phys s1"
         "tss_esp0 s' = tss_esp0 s1" "files s' = files s1"
      and t: "trace s' = trace s1 @ evs" and b: "Suc i \<le> j" "j \<le> Suc i + length rest"
      and z: "frames_allocated evs = []" "tss_writes evs = []"
      and pm: "pages_mapped evs =
          map (\<lambda>k. (g_kernel_page_directory_phys s1, base + of_nat k * PAGE_SIZE)) [Suc i ..< j]"
      and c: "(if r then g_next_kernel_stack_virt_base s' = g_next_kernel_stack_virt_base s1 \<and>
                   j = Suc i + length rest \<and> frames_put evs = [] \<and> pages_unmapped evs = []
         else g_next_kernel_stack_virt_base s' = base \<and> frames_put evs = frames \<and>
              pages_unmapped evs =
                (if 0 < j then map (Pair (g_kernel_page_directory_phys s1))
                                 (range_pages base (of_nat j * PAGE_SIZE)) else []))"
      by auto
    have upt: "[i ..< j] = i # [Suc i ..< j]" using b by (simp add: upt_conv_Cons)
    show ?thesis
      using g s1
      apply (intro conjI)
         apply simp
        apply simp
       apply simp
      apply (rule exI [of _ "EvMapSingle ?kpd ?v p PTE_KERNEL_DATA_FLAGS mr # evs"])
      apply (rule exI [of _ j])
      using t b z pm c True upt
      apply (simp split: if_splits)
      done
  qed
qed


lemma map_stack_pages_failure:
  assumes "map_stack_pages base frames 0 rest s = (False, s')"
  shows "\<exists>evs j. trace s' = trace s @ evs \<and> j \<le> length rest \<and>
        frames_allocated evs = [] \<and> tss_writes evs = [] \<and>
        pages_mapped evs =
          map (\<lambda>k. (g_kernel_page_directory_phys s, base + of_nat k * PAGE_SIZE)) [0 ..< j] \<and>
        g_next_kernel_stack_virt_base s' = base \<and> frames_put evs = frames \<and>
        pages_unmapped evs =
                (if 0 < j then map (Pair (g_kernel_page_directory_phys s))
                                 (range_pages base (of_nat j * PAGE_SIZE)) else [])"
  using map_stack_pages_events [OF assms] by simp

lemma num_pages_bound: "unat ((sz :: u32) div PAGE_SIZE) < 2 ^ 20"
proof -
  have "unat sz < 2 ^ 32" using unsigned_less [of sz] by simp
  then show ?thesis by (simp add: unat_div PAGE_SIZE_def)
qed


text \<open>Evaluation of the model at concrete inputs: the definitions to unfold.\<close>

lemmas page_consts = PAGE_SIZE_def PAGE_PRESENT_def PAGE_RW_def PAGE_USER_def PAGE_PWT_def PAGE_PCD_def
  PAGE_SIZE_4MB_def PAGE_NX_BIT_def PTE_KERNEL_DATA_FLAGS_def PTE_USER_DATA_FLAGS_def
  PDE_FLAGS_FROM_PTE_def PAGING_ADDR_MASK_def PDE_INDEX_def PTE_INDEX_def PAGE_ALIGN_DOWN_def
  PAGE_ALIGN_UP_def KERNEL_VIRT_BASE_def KERNEL_STACK_VIRT_START_def KERNEL_STACK_VIRT_END_def
  RECURSIVE_PDE_INDEX_def PAGING_TEMP_VADDR_def USER_EFLAGS_DEFAULT_def UINTPTR_MAX_def
  KERNEL_PDE_INDEX_def

lemmas prim_defs = log_def frame_alloc_raw_def put_frame_raw_def frame_alloc_def put_frame_def
  next_outcome_def kmalloc_def kfree_def tss_set_kernel_stack_def read_file_def paging_lookup_def
  paging_get_physical_address_def write_pte_def map_single_raw_def paging_map_single_4k_def
  unmap_page_def range_pages_def paging_unmap_range_def paging_temp_map_def paging_temp_unmap_def
  copy_kernel_pde_entries_def create_mm_def vma_overlaps_def insert_vma_def put_frames_def

lemma alloc_stack_frames_numeral:
  "alloc_stack_frames (numeral k) acc s =
     (case frame_alloc s of
        (f, s1) \<Rightarrow> if f = 0 then (None, put_frames acc s1)
                   else alloc_stack_frames (pred_numeral k) (acc @ [f]) s1)"
  by (simp add: numeral_eq_Suc)

lemma alloc_stack_frames_one:
  "alloc_stack_frames 1 acc s =
     (case frame_alloc s of
        (f, s1) \<Rightarrow> if f = 0 then (None, put_frames acc s1)
                   else alloc_stack_frames 0 (acc @ [f]) s1)"
  by (simp add: One_nat_def del: One_nat_def [symmetric])

lemma allocate_kernel_stack_misaligned_frame:
  "\<exists>p' s'. allocate_kernel_stack test_config zeroed_pcb
             (boot_state [0x100000, 0x101001, 0x102000] []) = Some (False, p', s')"
  by (simp add: allocate_kernel_stack_def test_config_def boot_state_def zeroed_pcb_def page_consts
        prim_defs Let_def alloc_stack_frames_numeral alloc_stack_frames_one)


section \<open>Properties of \<open>destroy_process\<close>\<close>

lemma paging_lookup_cong:
  "pd_words s' = pd_words s \<Longrightarrow> pt_words s' = pt_words s \<Longrightarrow> paging_lookup s' pd v = paging_lookup s pd v"
  by (simp add: paging_lookup_def Let_def)

lemma stack_page_events_cong:
  "pd_words s' = pd_words s \<Longrightarrow> pt_words s' = pt_words s \<Longrightarrow>
   g_kernel_page_directory_phys s' = g_kernel_page_directory_phys s \<Longrightarrow>
   stack_page_events s' = stack_page_events s"
  by (rule ext) (simp add: stack_page_events_def paging_lookup_cong [of s' s])

lemma get_phys_step:
  "paging_get_physical_address (g_kernel_page_directory_phys s) v s = (r, s1) \<Longrightarrow>
     r = paging_lookup s (g_kernel_page_directory_phys s) v \<and>
     trace s1 = trace s @ [EvGetPhys (g_kernel_page_directory_phys s) v r] \<and>
     pd_words s1 = pd_words s \<and> pt_words s1 = pt_words s \<and>
     g_kernel_page_directory_phys s1 = g_kernel_page_directory_phys s \<and>
     tss_esp0 s1 = tss_esp0 s \<and> files s1 = files s \<and>
     g_next_kernel_stack_virt_base s1 = g_next_kernel_stack_virt_base s"
  by (auto simp: paging_get_physical_address_def)

lemma free_kernel_stack_frames_done:
  "\<not> v < stop \<Longrightarrow> free_kernel_stack_frames v stop s = Some s"
  by (subst free_kernel_stack_frames.simps) (simp only: if_False)

lemma free_kernel_stack_frames_pages:
  "unat v + n * 4096 = unat stop \<Longrightarrow>
   \<exists>s'. free_kernel_stack_frames v stop s = Some s' \<and>
        trace s' = trace s @ concat (map (stack_page_events s) (map (\<lambda>k. v + of_nat k * PAGE_SIZE) [0 ..< n])) \<and>
        pd_words s' = pd_words s \<and> pt_words s' = pt_words s \<and>
        g_kernel_page_directory_phys s' = g_kernel_page_directory_phys s \<and>
        tss_esp0 s' = tss_esp0 s \<and> files s' = files s \<and>
        g_next_kernel_stack_virt_base s' = g_next_kernel_stack_virt_base s"
proof (induction n arbitrary: v s)
  case 0
  then have "\<not> v < stop" by (simp add: word_less_nat_alt)
  then show ?case by (simp add: free_kernel_stack_frames_done)
next
  case (Suc n)
  let ?kpd = "g_kernel_page_directory_phys s"
  from Suc.prems have lt: "v < stop" by (simp add: word_less_nat_alt)
  have stop: "unat stop < 2 ^ 32" using unsigned_less [of stop] by simp
  with Suc.prems have nowrap: "unat v + 4096 < 2 ^ 32" by simp
  then have next_v: "unat (v + PAGE_SIZE) = unat v + 4096"
    by (simp add: unat_plus_if' PAGE_SIZE_def)
  then have rest: "unat (v + PAGE_SIZE) + n * 4096 = unat stop" using Suc.prems by simp
  obtain r s1 where gp: "paging_get_physical_address ?kpd v s = (r, s1)"
    by (cases "paging_get_physical_address ?kpd v s")
  note g = get_phys_step [OF gp]
  define s2 where "s2 = (case r of Some p \<Rightarrow> if p \<noteq> 0 then put_frame p s1 else s1 | None \<Rightarrow> s1)"
  have unfold: "free_kernel_stack_frames v stop s = free_kernel_stack_frames (v + PAGE_SIZE) stop s2"
    by (subst free_kernel_stack_frames.simps) (simp add: lt gp s2_def split: option.splits)
  have s2: "trace s2 = trace s @ stack_page_events s v"
    "pd_words s2 = pd_words s" "pt_words s2 = pt_words s"
    "g_kernel_page_directory_phys s2 = ?kpd" "tss_esp0 s2 = tss_esp0 s" "files s2 = files s"
    "g_next_kernel_stack_virt_base s2 = g_next_kernel_stack_virt_base s"
    using g by (auto simp: s2_def stack_page_events_def split: option.splits)
  from Suc.IH [OF rest, of s2] obtain s' where
    r: "free_kernel_stack_frames (v + PAGE_SIZE) stop s2 = Some s'"
    and t: "trace s' = trace s2 @ concat (map (stack_page_events s2)
              (map (\<lambda>k. (v + PAGE_SIZE) + of_nat k * PAGE_SIZE) [0 ..< n]))"
    and f: "pd_words s' = pd_words s2" "pt_words s' = pt_words s2"
        "g_kernel_page_directory_phys s' = g_kernel_page_directory_phys s2"
        "tss_esp0 s' = tss_esp0 s2" "files s' = files s2"
        "g_next_kernel_stack_virt_base s' = g_next_kernel_stack_virt_base s2"
    by blast
  have ev: "stack_page_events s2 = stack_page_events s"
    by (rule stack_page_events_cong) (simp_all add: s2)
  have upt: "[0 ..< Suc n] = 0 # map Suc [0 ..< n]"
    by (simp only: map_Suc_upt upt_conv_Cons [OF zero_less_Suc])
  have pt: "\<And>k. v + of_nat (Suc k) * PAGE_SIZE = (v + PAGE_SIZE) + of_nat k * PAGE_SIZE"
    by (simp add: algebra_simps)
  have shift: "map (\<lambda>k. v + of_nat k * PAGE_SIZE) [0 ..< Suc n] =
      v # map (\<lambda>k. (v + PAGE_SIZE) + of_nat k * PAGE_SIZE) [0 ..< n]"
    unfolding upt by (simp add: pt comp_def del: upt_Suc of_nat_Suc)
  show ?case
    unfolding unfold shift
    using r t f s2 ev by simp
qed


lemma free_table_entry_fields [simp]:
  "trace (free_table_entry pt i s) = trace s"
  "g_next_kernel_stack_virt_base (free_table_entry pt i s) = g_next_kernel_stack_virt_base s"
  "g_kernel_page_directory_phys (free_table_entry pt i s) = g_kernel_page_directory_phys s"
  "tss_esp0 (free_table_entry pt i s) = tss_esp0 s"
  "files (free_table_entry pt i s) = files s"
  by (simp_all add: free_table_entry_def)

lemma free_user_pde_fields [simp]:
  "trace (free_user_pde pd i s) = trace s"
  "g_next_kernel_stack_virt_base (free_user_pde pd i s) = g_next_kernel_stack_virt_base s"
  "g_kernel_page_directory_phys (free_user_pde pd i s) = g_kernel_page_directory_phys s"
  "tss_esp0 (free_user_pde pd i s) = tss_esp0 s"
  "files (free_user_pde pd i s) = files s"
  by (simp_all add: free_user_pde_def Let_def fold_preserves)

lemma destroy_mm_fields [simp]:
  "trace (destroy_mm m s) = trace s @ [EvDestroyMm (pgd_phys m)]"
  "g_next_kernel_stack_virt_base (destroy_mm m s) = g_next_kernel_stack_virt_base s"
  "g_kernel_page_directory_phys (destroy_mm m s) = g_kernel_page_directory_phys s"
  "tss_esp0 (destroy_mm m s) = tss_esp0 s"
  "files (destroy_mm m s) = files s"
  by (simp_all add: destroy_mm_def paging_free_user_space_def fold_preserves)

lemma mm_released_fields [simp]:
  "trace (mm_released pcb s) = trace s @ mm_events pcb"
  "g_next_kernel_stack_virt_base (mm_released pcb s) = g_next_kernel_stack_virt_base s"
  "g_kernel_page_directory_phys (mm_released pcb s) = g_kernel_page_directory_phys s"
  "tss_esp0 (mm_released pcb s) = tss_esp0 s"
  "files (mm_released pcb s) = files s"
  by (simp_all add: mm_released_def mm_events_def split: option.splits)

lemma free_kernel_stack_frames_stack:
  assumes al: "stack_size mod PAGE_SIZE = 0"
  shows "\<exists>s'. free_kernel_stack_frames (stack_top - stack_size) stack_top s = Some s' \<and>
        trace s' = trace s @ concat (map (stack_page_events s) (stack_pages stack_size stack_top)) \<and>
        g_kernel_page_directory_phys s' = g_kernel_page_directory_phys s \<and>
        tss_esp0 s' = tss_esp0 s \<and> files s' = files s \<and>
        g_next_kernel_stack_virt_base s' = g_next_kernel_stack_virt_base s"
proof (cases "stack_size \<le> stack_top")
  case True
  then have b: "unat (stack_top - stack_size) = unat stack_top - unat stack_size"
    by (simp add: unat_sub)
  from True have le: "unat stack_size \<le> unat stack_top" by (simp add: word_le_nat_alt)
  from al have "unat stack_size mod 4096 = 0"
    by (simp add: PAGE_SIZE_def word_unat_eq_iff unat_mod)
  then have "unat stack_size div 4096 * 4096 = unat stack_size"
    by (simp add: mod_eq_0_iff_dvd)
  with b le have "unat (stack_top - stack_size) + unat stack_size div 4096 * 4096 = unat stack_top"
    by simp
  from free_kernel_stack_frames_pages [OF this, of s] show ?thesis
    using True by (auto simp: stack_pages_def)
next
  case False
  then have lt: "unat stack_top < unat stack_size" by (simp add: word_le_nat_alt)
  have "unat stack_size < 2 ^ 32" using unsigned_less [of stack_size] by simp
  with lt have "unat (stack_top - stack_size) = unat stack_top + 2 ^ 32 - unat stack_size"
    by (simp add: unat_sub_if')
  with lt \<open>unat stack_size < 2 ^ 32\<close> have "\<not> stack_top - stack_size < stack_top"
    by (simp add: word_less_nat_alt)
  then show ?thesis using False
    by (simp add: free_kernel_stack_frames_done stack_pages_def)
qed

text \<open>
  Claim C7. With a kernel stack size that is a multiple of the page size,
  \<open>destroy_process\<close> returns, and the calls it makes are, in this order: \<open>destroy_mm\<close> on the
  descriptor (if present); when the kernel stack top is not \<open>NULL\<close>, for each stack page in
  ascending order the lookup of its physical address followed by \<open>put_frame\<close> on the frame
  found, then \<open>paging_unmap_range\<close> of the stack range in the kernel page directory; when
  the directory is not \<open>NULL\<close>, \<open>put_frame\<close> on the directory frame; finally \<open>kfree\<close> of the
  PCB.
\<close>

theorem destroy_process_order:
  assumes al: "PROCESS_KSTACK_SIZE cfg mod PAGE_SIZE = 0"
  shows "\<exists>s'. destroy_process cfg pcb s = Some s' \<and>
     trace s' = trace s @ mm_events pcb @
       (if kernel_stack_vaddr_top pcb \<noteq> 0
        then concat (map (stack_page_events (mm_released pcb s))
                      (stack_pages (PROCESS_KSTACK_SIZE cfg) (kernel_stack_vaddr_top pcb))) @
             [EvUnmapRange (g_kernel_page_directory_phys s)
                (kernel_stack_vaddr_top pcb - PROCESS_KSTACK_SIZE cfg) (PROCESS_KSTACK_SIZE cfg)]
        else []) @
       (if page_directory_phys pcb \<noteq> 0 then [EvPutFrame (page_directory_phys pcb)] else []) @
       [EvKfree (ObjPcb (pid pcb))]"
proof -
  define s1 where "s1 = mm_released pcb s"
  from free_kernel_stack_frames_stack [OF al, of "kernel_stack_vaddr_top pcb" s1]
  obtain s2 where
    l: "free_kernel_stack_frames (kernel_stack_vaddr_top pcb - PROCESS_KSTACK_SIZE cfg)
          (kernel_stack_vaddr_top pcb) s1 = Some s2"
    and t: "trace s2 = trace s1 @ concat (map (stack_page_events s1)
              (stack_pages (PROCESS_KSTACK_SIZE cfg) (kernel_stack_vaddr_top pcb)))"
    and g: "g_kernel_page_directory_phys s2 = g_kernel_page_directory_phys s1"
    by blast
  have d: "destroy_process cfg pcb s =
     (case (if kernel_stack_vaddr_top pcb \<noteq> 0
               then Some (paging_unmap_range (g_kernel_page_directory_phys s2)
                                 (kernel_stack_vaddr_top pcb - PROCESS_KSTACK_SIZE cfg)
                                 (PROCESS_KSTACK_SIZE cfg) s2)
               else Some s1) of
           None \<Rightarrow> None
         | Some s3 \<Rightarrow>
             Some (kfree (ObjPcb (pid pcb))
                     (if page_directory_phys pcb \<noteq> 0
                      then put_frame (page_directory_phys pcb) s3 else s3)))"
    by (simp add: destroy_process_def s1_def mm_released_def l [unfolded s1_def mm_released_def])
  show ?thesis
    unfolding d using t g by (simp add: s1_def)
qed

text \<open>
  A process with a two-page kernel stack below 0xE0002000 whose first page is mapped to the
  frame 0x200000, a directory at 0x300000 and no descriptor.
\<close>

theorem destroy_process_order_witness:
  "\<exists>s'. destroy_process test_config
           (zeroed_pcb\<lparr>pid := 7, page_directory_phys := 0x300000,
                       kernel_stack_vaddr_top := 0xE0002000\<rparr>)
           ((boot_state [] [])
              \<lparr>pd_words := (\<lambda>pd i. if pd = 0x1000 \<and> i = 0x380 then 0x5003 else 0),
               pt_words := (\<lambda>pt i. if pt = 0x5000 \<and> i = 0 then 0x200203 else 0)\<rparr>) = Some s' \<and>
        trace s' =
          [EvGetPhys 0x1000 0xE0000000 (Some 0x200000), EvPutFrame 0x200000,
           EvGetPhys 0x1000 0xE0001000 None, EvUnmapRange 0x1000 0xE0000000 0x2000,
           EvPutFrame 0x300000, EvKfree (ObjPcb 7)]"
proof -
  have h: "PROCESS_KSTACK_SIZE test_config mod PAGE_SIZE = 0"
    by (simp add: test_config_def PAGE_SIZE_def)
  have upt: "[0 ..< 2] = [0, Suc 0]"
    by (simp add: upt_rec)
  have pages: "stack_pages 0x2000 0xE0002000 = [0xE0000000, 0xE0001000]"
    by (simp add: stack_pages_def upt PAGE_SIZE_def)
  from destroy_process_order [OF h, of
      "zeroed_pcb\<lparr>pid := 7, page_directory_phys := 0x300000, kernel_stack_vaddr_top := 0xE0002000\<rparr>"
      "(boot_state [] [])
              \<lparr>pd_words := (\<lambda>pd i. if pd = 0x1000 \<and> i = 0x380 then 0x5003 else 0),
               pt_words := (\<lambda>pt i. if pt = 0x5000 \<and> i = 0 then 0x200203 else 0)\<rparr>"]
  show ?thesis
    by (simp add: mm_events_def mm_released_def zeroed_pcb_def test_config_def boot_state_def
          pages stack_page_events_def paging_lookup_def page_consts Let_def)
qed

section \<open>Properties of the ELF loader\<close>

subsection \<open>Page alignment\<close>

lemma not_fff: "(- 4096 :: u32) = NOT 0xFFF"
  by simp

lemma unat_page_align_down: "unat (PAGE_ALIGN_DOWN x) = unat x div 4096 * 4096"
  by (simp add: PAGE_ALIGN_DOWN_def PAGE_SIZE_def) (simp only: not_fff unat_and_not_fff)

lemma unat_page_align_up:
  assumes "x \<le> KERNEL_VIRT_BASE"
  shows "unat (PAGE_ALIGN_UP x) = spec_page_align_up (unat x)"
proof -
  from assms have x: "unat x \<le> 3221225472" by (simp add: KERNEL_VIRT_BASE_def word_le_nat_alt)
  then have "unat (x + 4095) = unat x + 4095" by (simp add: unat_plus_if')
  moreover have "unat ((x + 4095) AND NOT 0xFFF) = unat (x + 4095) div 4096 * 4096"
    by (rule unat_and_not_fff)
  ultimately have "unat ((x + 4095) AND - 4096) = (unat x + 4095) div 4096 * 4096"
    by (simp only: not_fff)
  then show ?thesis
    by (simp add: PAGE_ALIGN_UP_def PAGE_SIZE_def spec_page_align_up_def)
qed

lemma spec_page_align_up_ge: "n \<le> spec_page_align_up n"
proof -
  have "(n + 4095) div 4096 * 4096 + (n + 4095) mod 4096 = n + 4095"
    by (rule div_mult_mod_eq)
  moreover have "(n + 4095) mod 4096 < 4096" by simp
  ultimately show ?thesis unfolding spec_page_align_up_def by linarith
qed

lemma spec_page_align_up_kvb: "n \<le> 3221225472 \<Longrightarrow> spec_page_align_up n \<le> 3221225472"
proof -
  assume "n \<le> 3221225472"
  then have "n + 4095 < 786433 * 4096" by simp
  then have "(n + 4095) div 4096 < 786433" by (simp only: less_mult_imp_div_less)
  then have "(n + 4095) div 4096 * 4096 \<le> 786432 * 4096" by simp
  then show ?thesis unfolding spec_page_align_up_def by simp
qed

lemma valid_segment:
  assumes "\<not> segment_invalid sz ph" "p_memsz ph \<noteq> 0"
  shows "unat (p_vaddr ph + p_memsz ph) = unat (p_vaddr ph) + unat (p_memsz ph)"
    and "p_vaddr ph + p_memsz ph \<le> KERNEL_VIRT_BASE"
    and "\<not> p_vaddr ph + p_memsz ph < p_vaddr ph"
    and "PAGE_ALIGN_DOWN (p_vaddr ph) < PAGE_ALIGN_UP (p_vaddr ph + p_memsz ph)"
    and "PAGE_ALIGN_UP (p_vaddr ph + p_memsz ph) \<le> KERNEL_VIRT_BASE"
proof -
  from assms(1) have v: "p_vaddr ph < KERNEL_VIRT_BASE"
    and k: "p_vaddr ph + p_memsz ph \<le> KERNEL_VIRT_BASE"
    and w: "p_vaddr ph \<le> p_vaddr ph + p_memsz ph"
    by (auto simp: segment_invalid_def not_le not_less)
  show "p_vaddr ph + p_memsz ph \<le> KERNEL_VIRT_BASE" by (rule k)
  show "\<not> p_vaddr ph + p_memsz ph < p_vaddr ph" using w by (simp add: not_less)
  from w show s: "unat (p_vaddr ph + p_memsz ph) = unat (p_vaddr ph) + unat (p_memsz ph)"
    by (simp add: no_olen_add_nat unat_plus_if')
  from assms(2) have m: "0 < unat (p_memsz ph)" by (simp add: unat_gt_0)
  have kn: "unat (p_vaddr ph) + unat (p_memsz ph) \<le> 3221225472"
    using k s by (simp add: KERNEL_VIRT_BASE_def word_le_nat_alt)
  have "unat (p_vaddr ph) div 4096 * 4096 \<le> unat (p_vaddr ph)"
    by (rule div_times_less_eq_dividend)
  also have "\<dots> < unat (p_vaddr ph) + unat (p_memsz ph)" using m by simp
  also have "\<dots> \<le> spec_page_align_up (unat (p_vaddr ph) + unat (p_memsz ph))"
    by (rule spec_page_align_up_ge)
  finally show "PAGE_ALIGN_DOWN (p_vaddr ph) < PAGE_ALIGN_UP (p_vaddr ph + p_memsz ph)"
    by (simp add: word_less_nat_alt unat_page_align_down unat_page_align_up [OF k] s)
  show "PAGE_ALIGN_UP (p_vaddr ph + p_memsz ph) \<le> KERNEL_VIRT_BASE"
    using spec_page_align_up_kvb [OF kn]
    by (simp add: word_le_nat_alt unat_page_align_up [OF k] s) (simp add: KERNEL_VIRT_BASE_def)
qed

lemma masked_aligned: "(x AND PAGING_ADDR_MASK) mod PAGE_SIZE = 0"
proof -
  have e: "PAGING_ADDR_MASK = NOT 0xFFF" by (simp add: PAGING_ADDR_MASK_def)
  have "unat (x AND PAGING_ADDR_MASK) = unat x div 4096 * 4096"
    unfolding e by (rule unat_and_not_fff)
  then show ?thesis by (simp add: aligned_iff)
qed

lemma pool_aligned_put_frame_raw:
  "pool_aligned s \<Longrightarrow> p mod PAGE_SIZE = 0 \<Longrightarrow> pool_aligned (put_frame_raw p s)"
  by (simp add: pool_aligned_def put_frame_raw_def)

lemma pool_aligned_put_frame:
  "pool_aligned s \<Longrightarrow> p mod PAGE_SIZE = 0 \<Longrightarrow> pool_aligned (put_frame p s)"
  using pool_aligned_put_frame_raw [of s p]
  by (simp add: put_frame_def pool_aligned_def log_def)

lemma pool_aligned_frame_alloc_raw:
  "pool_aligned s \<Longrightarrow>
     pool_aligned (snd (frame_alloc_raw s)) \<and> fst (frame_alloc_raw s) mod PAGE_SIZE = 0"
  by (auto simp add: pool_aligned_def frame_alloc_raw_def PAGE_SIZE_def split: list.splits)

lemma pool_aligned_frame_alloc:
  "pool_aligned s \<Longrightarrow>
     pool_aligned (snd (frame_alloc s)) \<and> fst (frame_alloc s) mod PAGE_SIZE = 0"
  using pool_aligned_frame_alloc_raw [of s]
  by (simp add: frame_alloc_def pool_aligned_def log_def split_beta)

lemma pool_aligned_write_pte:
  "pool_aligned s \<Longrightarrow> pool_aligned (write_pte pt v p fl s)"
  using pool_aligned_put_frame_raw [of s "pt_words s pt (PTE_INDEX v) AND PAGING_ADDR_MASK"]
  by (simp add: write_pte_def Let_def pool_aligned_def masked_aligned)

lemma pool_aligned_map_single_raw:
  "pool_aligned s \<Longrightarrow> pool_aligned (snd (map_single_raw pd v p fl s))"
proof -
  assume a: "pool_aligned s"
  obtain pt s1 where fa: "frame_alloc_raw s = (pt, s1)" by (cases "frame_alloc_raw s")
  with pool_aligned_frame_alloc_raw [OF a] have s1: "pool_aligned s1" by simp
  have "pool_aligned (s1\<lparr>pt_words := x, pd_words := y\<rparr>)" for x y
    using s1 by (simp add: pool_aligned_def)
  then show ?thesis
    using a s1 by (simp add: map_single_raw_def fa pool_aligned_write_pte)
qed

lemma pool_aligned_map_single:
  "pool_aligned s \<Longrightarrow> pool_aligned (snd (paging_map_single_4k pd v p fl s))"
  using pool_aligned_map_single_raw [of s pd v p fl]
  by (simp add: paging_map_single_4k_def split_beta pool_aligned_def log_def)

lemma copy_elf_segment_data_total:
  assumes "f \<noteq> 0" "f mod PAGE_SIZE = 0" "\<not> PAGE_SIZE < c + z"
  shows "\<exists>r s'. copy_elf_segment_data f fd off c z s = Some (r, s') \<and> pool s' = pool s"
  using assms
  by (simp add: copy_elf_segment_data_def Let_def split_beta not_less
        paging_temp_map_def paging_temp_unmap_def memcpy_to_frame_def memset_frame_def log_def)

lemma load_segment_pages_total:
  assumes "ve \<le> KERNEL_VIRT_BASE"
  shows "pool_aligned s \<Longrightarrow>
    \<exists>r s'. load_segment_pages fd ph pgd prot pv ve s = Some (r, s') \<and> pool_aligned s'"
proof (induction "unat ve - unat pv" arbitrary: pv s rule: less_induct)
  case less
  show ?case
  proof (cases "pv < ve")
    case False
    then have "load_segment_pages fd ph pgd prot pv ve s = Some (True, s)"
      by (subst load_segment_pages.simps) (simp only: if_False)
    then show ?thesis using less.prems by blast
  next
    case True
    from True assms have "unat pv < unat ve" "unat ve \<le> 3221225472"
      by (simp_all add: word_less_nat_alt word_le_nat_alt KERNEL_VIRT_BASE_def)
    then have nxt: "unat (pv + PAGE_SIZE) = unat pv + 4096"
      by (simp add: unat_plus_if' PAGE_SIZE_def)
    with \<open>unat pv < unat ve\<close> have dec: "unat ve - unat (pv + PAGE_SIZE) < unat ve - unat pv"
      by simp
    obtain f s1 where fa: "frame_alloc s = (f, s1)" by (cases "frame_alloc s")
    with pool_aligned_frame_alloc [OF less.prems] have s1: "pool_aligned s1" "f mod PAGE_SIZE = 0"
      by simp_all
    have unfold: "load_segment_pages fd ph pgd prot pv ve s =
             (if f = 0 then Some (False, s1)
             else if PAGE_SIZE < copy_size_this_page ph pv + zero_padding_this_page ph pv
             then Some (False, put_frame f s1)
             else
               (case copy_elf_segment_data f fd (file_buffer_offset ph pv)
                       (copy_size_this_page ph pv) (zero_padding_this_page ph pv) s1 of
                  None \<Rightarrow> None
                | Some (r, s2) \<Rightarrow>
                    if r \<noteq> 0 then Some (False, put_frame f s2)
                    else
                      (case paging_map_single_4k pgd pv f prot s2 of
                         (map_res, s3) \<Rightarrow>
                           if map_res \<noteq> MapOK then Some (False, put_frame f s3)
                           else load_segment_pages fd ph pgd prot (pv + PAGE_SIZE) ve s3)))"
      using True fa by (subst load_segment_pages.simps) (simp only: if_True, simp)
    show ?thesis
    proof (cases "f = 0 \<or> PAGE_SIZE < copy_size_this_page ph pv + zero_padding_this_page ph pv")
      case True
      then show ?thesis using unfold s1 pool_aligned_put_frame [of s1 f] by auto
    next
      case False
      then obtain r s2 where ce: "copy_elf_segment_data f fd (file_buffer_offset ph pv)
               (copy_size_this_page ph pv) (zero_padding_this_page ph pv) s1 = Some (r, s2)"
          and p2: "pool s2 = pool s1"
        using copy_elf_segment_data_total [of f "copy_size_this_page ph pv"
                 "zero_padding_this_page ph pv" fd "file_buffer_offset ph pv" s1] s1
        by auto
      from p2 s1 have s2: "pool_aligned s2" by (simp add: pool_aligned_def)
      obtain mr s3 where mp: "paging_map_single_4k pgd pv f prot s2 = (mr, s3)"
        by (cases "paging_map_single_4k pgd pv f prot s2")
      with pool_aligned_map_single [OF s2, of pgd pv f prot] have s3: "pool_aligned s3" by simp
      show ?thesis
      proof (cases "r \<noteq> 0 \<or> mr \<noteq> MapOK")
        case True
        then show ?thesis
          using unfold False ce mp s1 s2 s3 pool_aligned_put_frame [of s2 f]
            pool_aligned_put_frame [of s3 f] by auto
      next
        case no: False
        from less.hyps [OF dec s3] obtain r' s' where
          "load_segment_pages fd ph pgd prot (pv + PAGE_SIZE) ve s3 = Some (r', s')" "pool_aligned s'"
          by blast
        then show ?thesis using unfold False ce mp no by auto
      qed
    qed
  qed
qed


lemma load_segments_skip:
  "\<not> loadable ph \<Longrightarrow> load_segments fd (ph # rest) m h s = load_segments fd rest m h s"
  by (simp add: loadable_def)


lemma load_segments_valid:
  assumes "loadable ph" "\<not> segment_invalid (of_nat (length fd)) ph"
  shows "load_segments fd (ph # rest) m h s =
        (case insert_vma m (PAGE_ALIGN_DOWN (p_vaddr ph))
                (PAGE_ALIGN_UP (p_vaddr ph + p_memsz ph)) (segment_vma_flags ph)
                (segment_page_prot (g_nx_supported s) ph) of
           None \<Rightarrow> Some (False, m, h, s)
         | Some m1 \<Rightarrow>
             (case load_segment_pages fd ph (pgd_phys m1)
                     (segment_page_prot (g_nx_supported s) ph)
                     (PAGE_ALIGN_DOWN (p_vaddr ph))
                     (PAGE_ALIGN_UP (p_vaddr ph + p_memsz ph)) s of
                None \<Rightarrow> None
              | Some (False, s1) \<Rightarrow> Some (False, m1, h, s1)
              | Some (True, s1) \<Rightarrow>
                  load_segments fd rest m1
                    (if h < p_vaddr ph + p_memsz ph then p_vaddr ph + p_memsz ph else h) s1))"
proof -
  from assms(1) have m: "p_memsz ph \<noteq> 0" and t: "p_type ph = PT_LOAD"
    by (simp_all add: loadable_def)
  note v = valid_segment [OF assms(2) m]
  from v(4) have "\<not> PAGE_ALIGN_UP (p_vaddr ph + p_memsz ph) \<le> PAGE_ALIGN_DOWN (p_vaddr ph)"
    by (simp add: not_le)
  then show ?thesis using assms(2) m t v(3)
    by (auto simp: Let_def split: option.splits bool.splits)
qed

lemma load_segments_invalid:
  assumes "loadable ph" "segment_invalid (of_nat (length fd)) ph"
  shows "load_segments fd (ph # rest) m h s = Some (False, m, h, s)"
  using assms by (simp add: loadable_def)

declare load_segments.simps(2) [simp del]

lemma load_segments_none_loadable:
  "\<forall>ph \<in> set phs. \<not> loadable ph \<Longrightarrow> load_segments fd phs m h s = Some (True, m, h, s)"
  by (induction phs) (simp_all add: load_segments_skip)

lemma load_segments_total:
  "pool_aligned s \<Longrightarrow>
    \<exists>r m' h' s'. load_segments fd phs m h s = Some (r, m', h', s') \<and> pool_aligned s' \<and>
       (r \<longrightarrow> (\<forall>ph \<in> set phs. loadable ph \<longrightarrow> \<not> segment_invalid (of_nat (length fd)) ph))"
proof (induction phs arbitrary: m h s)
  case Nil
  then show ?case by auto
next
  case (Cons ph rest)
  show ?case
  proof (cases "loadable ph")
    case False
    with Cons.IH [OF Cons.prems, of m h] show ?thesis by (simp add: load_segments_skip)
  next
    case True
    show ?thesis
    proof (cases "segment_invalid (of_nat (length fd)) ph")
      case True
      with \<open>loadable ph\<close> Cons.prems show ?thesis by (auto simp: load_segments_invalid)
    next
      case False
      note unfold = load_segments_valid [OF True False, of rest m h s]
      from True have mz: "p_memsz ph \<noteq> 0" by (simp add: loadable_def)
      show ?thesis
      proof (cases "insert_vma m (PAGE_ALIGN_DOWN (p_vaddr ph))
                (PAGE_ALIGN_UP (p_vaddr ph + p_memsz ph)) (segment_vma_flags ph)
                (segment_page_prot (g_nx_supported s) ph)")
        case None
        with unfold Cons.prems show ?thesis by auto
      next
        case (Some m1)
        from load_segment_pages_total [OF valid_segment(5) [OF False mz] Cons.prems,
               of fd ph "pgd_phys m1" "segment_page_prot (g_nx_supported s) ph"
                  "PAGE_ALIGN_DOWN (p_vaddr ph)"]
        obtain r1 s1 where lp: "load_segment_pages fd ph (pgd_phys m1)
                     (segment_page_prot (g_nx_supported s) ph)
                     (PAGE_ALIGN_DOWN (p_vaddr ph))
                     (PAGE_ALIGN_UP (p_vaddr ph + p_memsz ph)) s = Some (r1, s1)"
          and s1: "pool_aligned s1" by blast
        show ?thesis
        proof (cases r1)
          case False
          with unfold Some lp s1 show ?thesis by auto
        next
          case r1: True
          from Cons.IH [OF s1, of m1
                 "if h < p_vaddr ph + p_memsz ph then p_vaddr ph + p_memsz ph else h"]
          show ?thesis using unfold Some lp r1 \<open>\<not> segment_invalid _ ph\<close> by auto
        qed
      qed
    qed
  qed
qed

lemma load_segments_highest:
  "load_segments fd phs m h s = Some (True, m', h', s') \<Longrightarrow> h \<le> KERNEL_VIRT_BASE \<Longrightarrow>
     h' \<le> KERNEL_VIRT_BASE \<and>
     unat h' = fold max (map (\<lambda>ph. unat (p_vaddr ph) + unat (p_memsz ph)) (filter loadable phs)) (unat h)"
proof (induction phs arbitrary: m h s)
  case Nil
  then show ?case by simp
next
  case (Cons ph rest)
  show ?case
  proof (cases "loadable ph")
    case False
    with Cons show ?thesis by (simp add: load_segments_skip)
  next
    case True
    then have mz: "p_memsz ph \<noteq> 0" by (simp add: loadable_def)
    have valid: "\<not> segment_invalid (of_nat (length fd)) ph"
      using Cons.prems(1) True by (auto simp: load_segments_invalid)
    note v = valid_segment [OF valid mz]
    let ?h1 = "if h < p_vaddr ph + p_memsz ph then p_vaddr ph + p_memsz ph else h"
    from Cons.prems(1) obtain m1 s1 where
      rest: "load_segments fd rest m1 ?h1 s1 = Some (True, m', h', s')"
      unfolding load_segments_valid [OF True valid]
      by (auto split: option.splits bool.splits)
    have h1: "?h1 \<le> KERNEL_VIRT_BASE" using v(2) Cons.prems(2) by simp
    have u: "unat ?h1 = max (unat (p_vaddr ph) + unat (p_memsz ph)) (unat h)"
      using v(1) by (auto simp: word_less_nat_alt max_def)
    from Cons.IH [OF rest h1] show ?thesis using True by (simp add: u)
  qed
qed


lemma segment_invalid_spec:
  assumes n: "n < 2 ^ 32" and m: "p_memsz ph \<noteq> 0"
  shows "segment_invalid (of_nat n) ph \<longleftrightarrow> spec_segment_violation n ph"
proof -
  from m have "0 < unat (p_memsz ph)" by (simp add: unat_gt_0)
  moreover have "unat (p_vaddr ph) < 4294967296" "unat (p_memsz ph) < 4294967296"
    "unat (p_filesz ph) < 4294967296" "unat (p_offset ph) < 4294967296"
    using unsigned_less [of "p_vaddr ph"] unsigned_less [of "p_memsz ph"]
      unsigned_less [of "p_filesz ph"] unsigned_less [of "p_offset ph"] by simp_all
  ultimately show ?thesis using n
    unfolding segment_invalid_def spec_segment_violation_def KERNEL_VIRT_BASE_def
       word_less_nat_alt word_le_nat_alt unat_plus_if' unat_sub_if' unat_of_nat32 [OF n]
    by (simp split: if_splits) linarith
qed


lemmas elf_consts = ELFMAG0_def ELFMAG1_def ELFMAG2_def ELFMAG3_def ELFCLASS32_def
  ELFDATA2LSB_def ET_EXEC_def EM_386_def EV_CURRENT_def sizeof_Elf32_Phdr_def sizeof_Elf32_Ehdr_def
  PT_LOAD_def PF_X_def PF_W_def PF_R_def

lemmas elf_defs = elf_image_def load_segment_def phdr_bytes_def le32_bytes_def le16_bytes_def
  elf_header_invalid_def ehdr_of_def phdr_at_def phdr_table_def le16_def le32_def

lemmas loader_defs = load_elf_and_init_memory_def segment_invalid_def segment_vma_flags_def
  segment_page_prot_def copy_elf_segment_data_def memcpy_to_frame_def memset_frame_def
  page_end_vaddr_def copy_size_this_page_def file_buffer_offset_def zero_padding_this_page_def
  load_segments.simps(2)

lemma load_segment_pages_step:
  "pv < ve \<Longrightarrow> load_segment_pages fd ph pgd prot pv ve s =
        (case frame_alloc s of
           (phys_page, s1) \<Rightarrow>
             if phys_page = 0 then Some (False, s1)
             else if PAGE_SIZE < copy_size_this_page ph pv + zero_padding_this_page ph pv
             then Some (False, put_frame phys_page s1)
             else
               (case copy_elf_segment_data phys_page fd (file_buffer_offset ph pv)
                       (copy_size_this_page ph pv) (zero_padding_this_page ph pv) s1 of
                  None \<Rightarrow> None
                | Some (r, s2) \<Rightarrow>
                    if r \<noteq> 0 then Some (False, put_frame phys_page s2)
                    else
                      (case paging_map_single_4k pgd pv phys_page prot s2 of
                         (map_res, s3) \<Rightarrow>
                           if map_res \<noteq> MapOK then Some (False, put_frame phys_page s3)
                           else load_segment_pages fd ph pgd prot (pv + PAGE_SIZE) ve s3)))"
  by (subst load_segment_pages.simps) (simp only: if_True)

lemma load_segment_pages_done:
  "\<not> pv < ve \<Longrightarrow> load_segment_pages fd ph pgd prot pv ve s = Some (True, s)"
  by (subst load_segment_pages.simps) (simp only: if_False)

lemma load_elf_header_rejected:
  assumes "read_file path s = Some file_data"
    and "length file_data < sizeof_Elf32_Ehdr \<or> elf_header_invalid file_data"
  shows "load_elf_and_init_memory path m entry_point0 initial_brk s =
           Some (- 1, m, entry_point0, initial_brk, kfree ObjFileData s)"
  using assms by (auto simp: load_elf_and_init_memory_def)

lemma load_elf_header_accepted:
  assumes "read_file path s = Some file_data"
    and "\<not> length file_data < sizeof_Elf32_Ehdr" "\<not> elf_header_invalid file_data"
    and "pool_aligned s"
  shows "\<exists>ok m' b' s'.
           load_elf_and_init_memory path m entry_point0 initial_brk s =
             Some (if ok then 0 else - 1, m', e_entry (ehdr_of file_data),
                   if ok then b' else initial_brk, s') \<and>
           (ok \<longrightarrow> (\<forall>ph \<in> set (program_headers file_data).
                    loadable ph \<longrightarrow> \<not> segment_invalid (of_nat (length file_data)) ph))"
proof -
  from load_segments_total [OF assms(4), of file_data "program_headers file_data" m 0]
  obtain ok m' h' s' where ls: "load_segments file_data (program_headers file_data) m 0 s =
       Some (ok, m', h', s')"
    and v: "ok \<longrightarrow> (\<forall>ph \<in> set (program_headers file_data).
                  loadable ph \<longrightarrow> \<not> segment_invalid (of_nat (length file_data)) ph)"
    by blast
  have "load_elf_and_init_memory path m entry_point0 initial_brk s =
          Some (if ok then 0 else - 1, m', e_entry (ehdr_of file_data),
                if ok then (if PAGE_ALIGN_UP h' < h' then UINTPTR_MAX else PAGE_ALIGN_UP h')
                else initial_brk, kfree ObjFileData s')"
    using assms(1-3) ls
    unfolding load_elf_and_init_memory_def program_headers_def [symmetric]
    by simp
  with v show ?thesis by blast
qed

text \<open>
  Claim C5. When \<open>load_elf_and_init_memory\<close> returns 0, the entry point it reports is
  \<open>e_entry\<close> of the header of the file, and the initial break it reports is the page-aligned
  round-up of the maximum of \<open>vaddr + memsz\<close> over the \<open>PT_LOAD\<close> segments with \<open>memsz > 0\<close>
  (0 when the file has no such segment), the sum and the round-up being those of the
  natural numbers; it is also \<open>PAGE_ALIGN_UP\<close> of that maximum.
\<close>

theorem load_elf_initial_brk_and_entry:
  assumes "load_elf_and_init_memory path m entry_point0 initial_brk s = Some (0, m', entry, brk, s')"
  shows "\<exists>file_data. read_file path s = Some file_data \<and>
           entry = e_entry (ehdr_of file_data) \<and>
           unat brk = spec_page_align_up (spec_max_end (program_headers file_data)) \<and>
           brk = PAGE_ALIGN_UP (of_nat (spec_max_end (program_headers file_data)))"
proof -
  from assms obtain file_data where rf: "read_file path s = Some file_data"
    by (auto simp: load_elf_and_init_memory_def split: option.splits)
  from assms rf obtain h s1 where
    ls: "load_segments file_data (program_headers file_data) m 0 s = Some (True, m', h, s1)"
    and e: "entry = e_entry (ehdr_of file_data)"
    and b: "brk = (if PAGE_ALIGN_UP h < h then UINTPTR_MAX else PAGE_ALIGN_UP h)"
    unfolding load_elf_and_init_memory_def program_headers_def [symmetric]
    by (auto split: if_splits option.splits bool.splits)
  from load_segments_highest [OF ls] have hk: "h \<le> KERNEL_VIRT_BASE"
    and hm: "unat h = spec_max_end (program_headers file_data)"
    by (simp_all add: spec_max_end_def)
  have "unat h \<le> unat (PAGE_ALIGN_UP h)"
    by (simp add: unat_page_align_up [OF hk] spec_page_align_up_ge)
  then have "\<not> PAGE_ALIGN_UP h < h" by (simp add: word_less_nat_alt)
  with b have b': "brk = PAGE_ALIGN_UP h" by simp
  have "of_nat (unat h) = h" by simp
  then have "h = of_nat (spec_max_end (program_headers file_data))" by (simp only: hm)
  with rf e b' hm unat_page_align_up [OF hk] show ?thesis by auto
qed


lemma upt_2: "[0 ..< 2] = [0, Suc 0]"
  by (simp add: upt_rec)

lemmas eval_defs = loader_defs load_segment_pages_step load_segment_pages_done upt_2
  boot_state_def page_consts prim_defs new_mm_def elf_consts elf_defs Let_def

lemma two_segments_eval:
  "\<exists>m' s'. load_elf_and_init_memory ''/kernel.bin'' (new_mm 0x2000) 0 0
      (boot_state [0x100000, 0x101000, 0x102000, 0x103000]
         (elf_image 0x08048000 [load_segment 0x0804A000 0 4 0x10, load_segment 0x08048000 0 4 4]))
      = Some (0, m', 0x08048000, 0x0804B000, s')"
  by (simp add: eval_defs)

text \<open>
  A file with two segments, \<open>[0x0804A000, 0x0804A010)\<close> and \<open>[0x08048000, 0x08048004)\<close>: the
  break is \<open>0x0804B000\<close>.
\<close>

theorem load_elf_initial_brk_and_entry_witness:
  "\<exists>m' s' file_data.
     load_elf_and_init_memory ''/kernel.bin'' (new_mm 0x2000) 0 0
      (boot_state [0x100000, 0x101000, 0x102000, 0x103000]
         (elf_image 0x08048000 [load_segment 0x0804A000 0 4 0x10, load_segment 0x08048000 0 4 4]))
      = Some (0, m', 0x08048000, 0x0804B000, s') \<and>
     read_file ''/kernel.bin'' (boot_state [0x100000, 0x101000, 0x102000, 0x103000]
         (elf_image 0x08048000 [load_segment 0x0804A000 0 4 0x10, load_segment 0x08048000 0 4 4]))
      = Some file_data \<and>
     (0x08048000 :: u32) = e_entry (ehdr_of file_data) \<and>
     unat (0x0804B000 :: u32) = spec_page_align_up (spec_max_end (program_headers file_data))"
proof -
  obtain m' s' where e: "load_elf_and_init_memory ''/kernel.bin'' (new_mm 0x2000) 0 0
      (boot_state [0x100000, 0x101000, 0x102000, 0x103000]
         (elf_image 0x08048000 [load_segment 0x0804A000 0 4 0x10, load_segment 0x08048000 0 4 4]))
      = Some (0, m', 0x08048000, 0x0804B000, s')"
    using two_segments_eval by blast
  from load_elf_initial_brk_and_entry [OF e] e show ?thesis by blast
qed

text \<open>
  Claim C2 fails on the code for a segment whose \<open>p_vaddr\<close> is not page-aligned. The file
  below has one \<open>PT_LOAD\<close> segment at \<open>0x08048100\<close> with \<open>filesz = memsz = 4\<close> and \<open>p_offset = 0\<close>.
  The load succeeds; the byte at virtual address \<open>0x08048100\<close> is 0 and not byte 0 of the
  file (\<open>0x7F\<close>), which is found at the start of the page, \<open>0x08048000\<close>:
  \<open>copy_elf_segment_data\<close> copies to the start of the frame whatever the offset of the
  segment in its first page.
\<close>

theorem load_elf_unaligned_segment:
  "\<exists>m' b s'. load_elf_and_init_memory ''/kernel.bin'' (new_mm 0x2000) 0 0
      (boot_state [0x100000, 0x101000, 0x102000]
         (elf_image 0x08048100 [load_segment 0x08048100 0 4 4])) = Some (0, m', 0x08048100, b, s') \<and>
     elf_image 0x08048100 [load_segment 0x08048100 0 4 4] ! 0 = 0x7F \<and>
     user_byte s' 0x2000 0x08048100 = Some 0 \<and>
     user_byte s' 0x2000 0x08048000 = Some 0x7F"
  by (simp add: eval_defs user_byte_def)


lemma read_file_length: "read_file path s = Some file_data \<Longrightarrow> length file_data < 2 ^ 32"
  by (auto simp: read_file_def split: option.splits if_splits)


lemma eval_pool_aligned: "pool_aligned (boot_state [0x100000, 0x101000, 0x102000, 0x103000] f)"
  by (simp add: pool_aligned_def boot_state_def PAGE_SIZE_def)

lemma eval_read_file:
  "length f < 2 ^ 32 \<Longrightarrow> read_file ''/kernel.bin'' (boot_state fs f) = Some f"
  by (simp add: read_file_def boot_state_def)




lemma same_but_data_frame_alloc:
  "same_but_data s t \<Longrightarrow>
     fst (frame_alloc t) = fst (frame_alloc s) \<and> same_but_data (snd (frame_alloc s)) (snd (frame_alloc t))"
  by (simp add: same_but_data_def frame_alloc_def frame_alloc_raw_def log_def split: list.splits)

lemma same_but_data_put_frame:
  "same_but_data s t \<Longrightarrow> same_but_data (put_frame p s) (put_frame p t)"
  by (simp add: same_but_data_def put_frame_def put_frame_raw_def log_def)

lemma same_but_data_kfree:
  "same_but_data s t \<Longrightarrow> same_but_data (kfree obj s) (kfree obj t)"
  by (simp add: same_but_data_def kfree_def log_def)

lemma same_but_data_put_frame_raw:
  "same_but_data s t \<Longrightarrow> same_but_data (put_frame_raw p s) (put_frame_raw p t)"
  by (simp add: same_but_data_def put_frame_raw_def)

lemma same_but_data_write_pte:
  assumes "same_but_data s t"
  shows "same_but_data (write_pte pt v p fl s) (write_pte pt v p fl t)"
proof -
  let ?old = "pt_words s pt (PTE_INDEX v)"
  define s1 where "s1 = (if ?old AND PAGE_PRESENT \<noteq> 0 \<and> ?old AND PAGING_ADDR_MASK \<noteq> p
                then put_frame_raw (?old AND PAGING_ADDR_MASK) s else s)"
  define t1 where "t1 = (if ?old AND PAGE_PRESENT \<noteq> 0 \<and> ?old AND PAGING_ADDR_MASK \<noteq> p
                then put_frame_raw (?old AND PAGING_ADDR_MASK) t else t)"
  from assms have pt: "pt_words t = pt_words s" by (simp add: same_but_data_def)
  have "same_but_data s1 t1"
    using assms same_but_data_put_frame_raw [OF assms] by (simp add: s1_def t1_def)
  then have "same_but_data (s1\<lparr>pt_words := x\<rparr>) (t1\<lparr>pt_words := x\<rparr>)" for x
    by (simp add: same_but_data_def)
  moreover have "pt_words t1 = pt_words s1" using \<open>same_but_data s1 t1\<close> by (simp add: same_but_data_def)
  ultimately show ?thesis
    by (simp add: write_pte_def Let_def pt s1_def [symmetric] t1_def [symmetric])
qed

lemma same_but_data_frame_alloc_raw:
  "same_but_data s t \<Longrightarrow>
     fst (frame_alloc_raw t) = fst (frame_alloc_raw s) \<and>
     same_but_data (snd (frame_alloc_raw s)) (snd (frame_alloc_raw t))"
  by (simp add: same_but_data_def frame_alloc_raw_def split: list.splits)

lemma same_but_data_map_raw:
  assumes "same_but_data s t"
  shows "fst (map_single_raw pd v p fl t) = fst (map_single_raw pd v p fl s) \<and>
     same_but_data (snd (map_single_raw pd v p fl s)) (snd (map_single_raw pd v p fl t))"
proof -
  from assms have pd: "pd_words t = pd_words s" by (simp add: same_but_data_def)
  obtain f s1 where fa: "frame_alloc_raw s = (f, s1)" by (cases "frame_alloc_raw s")
  obtain t1 where fat: "frame_alloc_raw t = (f, t1)" and st1: "same_but_data s1 t1"
    using same_but_data_frame_alloc_raw [OF assms] fa by (cases "frame_alloc_raw t") auto
  from st1 have w: "pt_words t1 = pt_words s1" "pd_words t1 = pd_words s1"
    by (simp_all add: same_but_data_def)
  from st1 have "same_but_data (s1\<lparr>pt_words := x, pd_words := y\<rparr>) (t1\<lparr>pt_words := x, pd_words := y\<rparr>)"
    for x y by (simp add: same_but_data_def)
  then show ?thesis
    using assms st1
    by (simp add: map_single_raw_def pd fa fat w same_but_data_write_pte)
qed

lemma same_but_data_log: "same_but_data s t \<Longrightarrow> same_but_data (log e s) (log e t)"
  by (simp add: same_but_data_def log_def)

lemma same_but_data_map:
  "same_but_data s t \<Longrightarrow>
     fst (paging_map_single_4k pd v p fl t) = fst (paging_map_single_4k pd v p fl s) \<and>
     same_but_data (snd (paging_map_single_4k pd v p fl s)) (snd (paging_map_single_4k pd v p fl t))"
  using same_but_data_map_raw [of s t pd v p fl]
  by (simp add: paging_map_single_4k_def split_beta same_but_data_log)

lemma same_but_data_temp_map:
  "same_but_data s t \<Longrightarrow>
     fst (paging_temp_map p t) = fst (paging_temp_map p s) \<and>
     same_but_data (snd (paging_temp_map p s)) (snd (paging_temp_map p t))"
  by (simp add: same_but_data_def paging_temp_map_def log_def split_beta)

lemma same_but_data_frames:
  "same_but_data s t \<Longrightarrow> same_but_data (s\<lparr>frame_bytes := x\<rparr>) (t\<lparr>frame_bytes := y\<rparr>)"
  by (simp add: same_but_data_def)

lemma same_but_data_temp_unmap:
  "same_but_data s t \<Longrightarrow> same_but_data (paging_temp_unmap v s) (paging_temp_unmap v t)"
  by (simp add: same_but_data_def paging_temp_unmap_def log_def)

lemma same_but_data_copy:
  assumes st: "same_but_data s t"
    and run: "copy_elf_segment_data f fd off c z s = Some (r, s')"
  shows "\<exists>t'. copy_elf_segment_data f fd' off' c z t = Some (r, t') \<and> same_but_data s' t'"
proof -
  from run have ok: "f \<noteq> 0 \<and> f mod PAGE_SIZE = 0" "c + z \<le> PAGE_SIZE"
    by (auto simp: copy_elf_segment_data_def split: if_splits)
  obtain tv s1 where tm: "paging_temp_map f s = (tv, s1)" by (cases "paging_temp_map f s")
  obtain t1 where tmt: "paging_temp_map f t = (tv, t1)" and st1: "same_but_data s1 t1"
    using same_but_data_temp_map [OF st, of f] tm by (cases "paging_temp_map f t") auto
  show ?thesis
  proof (cases "tv = 0")
    case True
    with run ok tm tmt st1 show ?thesis by (simp add: copy_elf_segment_data_def)
  next
    case False
    define s2 where "s2 = (if 0 < c then memcpy_to_frame f fd (unat off) (unat c) s1 else s1)"
    define s3 where "s3 = (if 0 < z then memset_frame f (unat c) 0 (unat z) s2 else s2)"
    define t2 where "t2 = (if 0 < c then memcpy_to_frame f fd' (unat off') (unat c) t1 else t1)"
    define t3 where "t3 = (if 0 < z then memset_frame f (unat c) 0 (unat z) t2 else t2)"
    have "same_but_data s2 t2"
      using st1 same_but_data_frames [OF st1] by (simp add: s2_def t2_def memcpy_to_frame_def)
    then have "same_but_data s3 t3"
      using same_but_data_frames by (simp add: s3_def t3_def memset_frame_def)
    then have fin: "same_but_data (paging_temp_unmap tv s3) (paging_temp_unmap tv t3)"
      by (rule same_but_data_temp_unmap)
    from run ok tm False have "r = 0" "s' = paging_temp_unmap tv s3"
      by (auto simp: copy_elf_segment_data_def Let_def s2_def s3_def)
    moreover have "copy_elf_segment_data f fd' off' c z t = Some (0, paging_temp_unmap tv t3)"
      using ok tmt False by (auto simp: copy_elf_segment_data_def Let_def t2_def t3_def)
    ultimately show ?thesis using fin by simp
  qed
qed

lemma load_segment_pages_sim:
  assumes "load_segment_pages fd ph pgd prot pv ve s = Some y"
  shows "\<forall>t. same_but_data s t \<longrightarrow>
           (\<exists>t'. load_segment_pages fd' ph pgd prot pv ve t = Some (fst y, t') \<and>
                 same_but_data (snd y) t')"
  using assms
proof (induct fd ph pgd prot pv ve s y rule: load_segment_pages.raw_induct [rotated 1, consumes 1])
  case (1 lsp fd ph pgd prot pv ve s y)
  show ?case
  proof (intro allI impI)
    fix t assume st: "same_but_data s t"
    show "\<exists>t'. load_segment_pages fd' ph pgd prot pv ve t = Some (fst y, t') \<and>
                 same_but_data (snd y) t'"
    proof (cases "pv < ve")
      case False
      with 1(2) st show ?thesis by (auto simp: load_segment_pages_done)
    next
      case True
      note step = load_segment_pages_step [OF True, of fd' ph pgd prot]
      obtain f s1 where fa: "frame_alloc s = (f, s1)" by (cases "frame_alloc s")
      obtain t1 where fat: "frame_alloc t = (f, t1)" and st1: "same_but_data s1 t1"
        using same_but_data_frame_alloc [OF st] fa by (cases "frame_alloc t") auto
      show ?thesis
      proof (cases "f = 0 \<or> PAGE_SIZE < copy_size_this_page ph pv + zero_padding_this_page ph pv")
        case True
        with 1(2) \<open>pv < ve\<close> fa have "y = (False, s1) \<or> y = (False, put_frame f s1)"
          by (auto split: if_splits)
        with True 1(2) \<open>pv < ve\<close> fa fat st1 same_but_data_put_frame [OF st1, of f]
        show ?thesis by (auto simp: step split: if_splits)
      next
        case False
        obtain r s2 where ce: "copy_elf_segment_data f fd (file_buffer_offset ph pv)
                 (copy_size_this_page ph pv) (zero_padding_this_page ph pv) s1 = Some (r, s2)"
          using 1(2) \<open>pv < ve\<close> fa False by (auto split: if_splits option.splits)
        from same_but_data_copy [OF st1 ce, of fd' "file_buffer_offset ph pv"]
        obtain t2 where cet: "copy_elf_segment_data f fd' (file_buffer_offset ph pv)
                 (copy_size_this_page ph pv) (zero_padding_this_page ph pv) t1 = Some (r, t2)"
          and st2: "same_but_data s2 t2" by blast
        show ?thesis
        proof (cases "r = 0")
          case nz: False
          with 1(2) \<open>pv < ve\<close> fa False ce have "y = (False, put_frame f s2)"
            by (auto split: if_splits)
          with nz False fat cet same_but_data_put_frame [OF st2, of f]
          show ?thesis by (auto simp: step)
        next
          case True
          obtain mr s3 where mp: "paging_map_single_4k pgd pv f prot s2 = (mr, s3)"
            by (cases "paging_map_single_4k pgd pv f prot s2")
          obtain t3 where mpt: "paging_map_single_4k pgd pv f prot t2 = (mr, t3)"
            and st3: "same_but_data s3 t3"
            using same_but_data_map [OF st2, of pgd pv f prot] mp
            by (cases "paging_map_single_4k pgd pv f prot t2") auto
          show ?thesis
          proof (cases "mr = MapOK")
            case nok: False
            with 1(2) \<open>pv < ve\<close> fa False ce True mp have "y = (False, put_frame f s3)"
              by (auto split: if_splits)
            with nok True False fat cet mpt same_but_data_put_frame [OF st3, of f]
            show ?thesis by (auto simp: step)
          next
            case ok: True
            with 1(2) \<open>pv < ve\<close> fa False ce True mp
            have "lsp fd ph pgd prot (pv + PAGE_SIZE) ve s3 = Some y"
              by (auto split: if_splits)
            from 1(1) [OF this] st3 obtain t' where
              "load_segment_pages fd' ph pgd prot (pv + PAGE_SIZE) ve t3 = Some (fst y, t')"
              "same_but_data (snd y) t'" by blast
            with ok True False fat cet mpt show ?thesis by (auto simp: step)
          qed
        qed
      qed
    qed
  qed
qed

lemma load_segments_sim:
  assumes len: "length fd' = length fd"
  shows "load_segments fd phs m h s = Some (r, m', h', s') \<Longrightarrow> same_but_data s t \<Longrightarrow>
     \<exists>t'. load_segments fd' phs m h t = Some (r, m', h', t') \<and> same_but_data s' t'"
proof (induction phs arbitrary: m h s t)
  case Nil
  then show ?case by simp
next
  case (Cons ph rest)
  from Cons.prems(2) have nx: "g_nx_supported t = g_nx_supported s" by (simp add: same_but_data_def)
  show ?case
  proof (cases "loadable ph")
    case False
    with Cons show ?thesis by (simp add: load_segments_skip)
  next
    case True
    show ?thesis
    proof (cases "segment_invalid (of_nat (length fd)) ph")
      case True
      with \<open>loadable ph\<close> Cons.prems len show ?thesis by (simp add: load_segments_invalid)
    next
      case False
      note u1 = load_segments_valid [OF True False, of rest m h s]
      from False len have "\<not> segment_invalid (of_nat (length fd')) ph" by simp
      note u2 = load_segments_valid [OF True this, of rest m h t]
      let ?prot = "segment_page_prot (g_nx_supported s) ph"
      show ?thesis
      proof (cases "insert_vma m (PAGE_ALIGN_DOWN (p_vaddr ph))
                (PAGE_ALIGN_UP (p_vaddr ph + p_memsz ph)) (segment_vma_flags ph) ?prot")
        case None
        with u1 u2 nx Cons.prems show ?thesis by simp
      next
        case (Some m1)
        from Cons.prems(1) u1 Some obtain r1 s1 where
          lp: "load_segment_pages fd ph (pgd_phys m1) ?prot
                     (PAGE_ALIGN_DOWN (p_vaddr ph))
                     (PAGE_ALIGN_UP (p_vaddr ph + p_memsz ph)) s = Some (r1, s1)"
          by (auto split: option.splits)
        from load_segment_pages_sim [OF lp, of fd'] Cons.prems(2) obtain t1 where
          lpt: "load_segment_pages fd' ph (pgd_phys m1) ?prot
                     (PAGE_ALIGN_DOWN (p_vaddr ph))
                     (PAGE_ALIGN_UP (p_vaddr ph + p_memsz ph)) t = Some (r1, t1)"
          and st1: "same_but_data s1 t1" by auto
        show ?thesis
        proof (cases r1)
          case False
          with u1 u2 nx Some lp lpt st1 Cons.prems(1) show ?thesis by auto
        next
          case r1: True
          with u1 Some lp Cons.prems(1) have
            "load_segments fd rest m1
               (if h < p_vaddr ph + p_memsz ph then p_vaddr ph + p_memsz ph else h) s1 =
             Some (r, m', h', s')" by simp
          from Cons.IH [OF this st1] u2 nx Some lpt r1 show ?thesis by simp
        qed
      qed
    qed
  qed
qed


lemma elf_header_invalid_entry:
  assumes hdr: "ehdr_of fd' = (ehdr_of fd)\<lparr>e_entry := e_entry (ehdr_of fd')\<rparr>"
    and len: "length fd' = length fd"
    and nz: "e_entry (ehdr_of fd) \<noteq> 0" "e_entry (ehdr_of fd') \<noteq> 0"
  shows "elf_header_invalid fd' = elf_header_invalid fd"
proof -
  have "e_ident (ehdr_of fd') = e_ident (ehdr_of fd)" "e_type (ehdr_of fd') = e_type (ehdr_of fd)"
    "e_machine (ehdr_of fd') = e_machine (ehdr_of fd)" "e_version (ehdr_of fd') = e_version (ehdr_of fd)"
    "e_phentsize (ehdr_of fd') = e_phentsize (ehdr_of fd)" "e_phoff (ehdr_of fd') = e_phoff (ehdr_of fd)"
    "e_phnum (ehdr_of fd') = e_phnum (ehdr_of fd)"
    using arg_cong [OF hdr, of e_ident] arg_cong [OF hdr, of e_type] arg_cong [OF hdr, of e_machine]
      arg_cong [OF hdr, of e_version] arg_cong [OF hdr, of e_phentsize] arg_cong [OF hdr, of e_phoff]
      arg_cong [OF hdr, of e_phnum]
    by simp_all
  with len nz show ?thesis by (simp add: elf_header_invalid_def Let_def)
qed

lemma load_elf_entry_independent:
  assumes rf: "read_file path s = Some fd" and rf': "read_file path t = Some fd'"
    and st: "same_but_data s t" and len: "length fd' = length fd"
    and ph: "program_headers fd' = program_headers fd"
    and hdr: "ehdr_of fd' = (ehdr_of fd)\<lparr>e_entry := e_entry (ehdr_of fd')\<rparr>"
    and nz: "e_entry (ehdr_of fd) \<noteq> 0" "e_entry (ehdr_of fd') \<noteq> 0"
    and run: "load_elf_and_init_memory path m e0 b0 s = Some (r, m', e, b', s')"
  shows "\<exists>e' t'. load_elf_and_init_memory path m e0 b0 t = Some (r, m', e', b', t') \<and>
           same_but_data s' t' \<and>
           (e' = e0 \<and> e = e0 \<or> e' = e_entry (ehdr_of fd') \<and> e = e_entry (ehdr_of fd))"
proof (cases "length fd < sizeof_Elf32_Ehdr \<or> elf_header_invalid fd")
  case True
  then have "length fd' < sizeof_Elf32_Ehdr \<or> elf_header_invalid fd'"
    using elf_header_invalid_entry [OF hdr len nz] len by simp
  from load_elf_header_rejected [OF rf True, of m e0 b0]
    load_elf_header_rejected [OF rf' this, of m e0 b0] run same_but_data_kfree [OF st, of ObjFileData]
  show ?thesis by auto
next
  case False
  then have v: "\<not> length fd < sizeof_Elf32_Ehdr" "\<not> elf_header_invalid fd" by simp_all
  then have v': "\<not> length fd' < sizeof_Elf32_Ehdr" "\<not> elf_header_invalid fd'"
    using elf_header_invalid_entry [OF hdr len nz] len by simp_all
  from run rf v obtain ok h s1 where
    ls: "load_segments fd (program_headers fd) m 0 s = Some (ok, m', h, s1)"
    and res: "r = (if ok then 0 else - 1)" "e = e_entry (ehdr_of fd)" "s' = kfree ObjFileData s1"
      "b' = (if ok then (if PAGE_ALIGN_UP h < h then UINTPTR_MAX else PAGE_ALIGN_UP h) else b0)"
    unfolding load_elf_and_init_memory_def program_headers_def [symmetric]
    by (auto split: option.splits bool.splits)
  from load_segments_sim [OF len ls st] obtain t1 where
    lt: "load_segments fd' (program_headers fd) m 0 t = Some (ok, m', h, t1)"
    and st1: "same_but_data s1 t1" by blast
  from lt have lt': "load_segments fd' (program_headers fd') m 0 t = Some (ok, m', h, t1)"
    by (simp only: ph)
  have "load_elf_and_init_memory path m e0 b0 t =
          Some (r, m', e_entry (ehdr_of fd'), b', kfree ObjFileData t1)"
    using rf' v' lt' res
    unfolding load_elf_and_init_memory_def program_headers_def [symmetric]
    by simp
  with res same_but_data_kfree [OF st1, of ObjFileData] show ?thesis by auto
qed


text \<open>
  Claim C9, as the code has it. The loader rejects a file whose \<open>e_entry\<close> is 0. For a file
  with a valid header (and page-aligned frames in the allocator) it returns and reports
  \<open>e_entry\<close> as the entry point, whatever its value, and it can only fail when the file has
  a \<open>PT_LOAD\<close> segment with \<open>memsz > 0\<close>. And the value of a non-zero \<open>e_entry\<close> has no
  influence on the load: for two files of the same length that differ in nothing but their
  non-zero \<open>e_entry\<close> (the same header otherwise, the same program headers), loaded in
  kernel states that agree on everything but the contents of the data frames and the files,
  the loader returns the same result, the same descriptor and the same initial break, each
  with its own \<open>e_entry\<close> as the entry point (or with the entry point untouched, when both
  loads fail at the header), and leaves states that again agree on everything but the
  contents of the data frames and the files. An \<open>e_entry\<close> at or above \<open>KERNEL_VIRT_BASE\<close>
  is therefore accepted exactly when the same file with an entry point in user space is.
\<close>

theorem load_elf_entry_point_check:
  assumes "read_file path s = Some file_data"
  shows "(e_entry (ehdr_of file_data) = 0 \<longrightarrow>
            load_elf_and_init_memory path m entry_point0 initial_brk s =
              Some (- 1, m, entry_point0, initial_brk, kfree ObjFileData s)) \<and>
         (pool_aligned s \<and> \<not> length file_data < sizeof_Elf32_Ehdr \<and>
          \<not> elf_header_invalid file_data \<longrightarrow>
            (\<exists>r m' b' s'. load_elf_and_init_memory path m entry_point0 initial_brk s =
                       Some (r, m', e_entry (ehdr_of file_data), b', s') \<and>
               (r \<noteq> 0 \<longrightarrow> (\<exists>ph \<in> set (program_headers file_data). loadable ph)))) \<and>
         (\<forall>t file_data' r m' e b' s'.
            read_file path t = Some file_data' \<and> same_but_data s t \<and>
            length file_data' = length file_data \<and>
            program_headers file_data' = program_headers file_data \<and>
            ehdr_of file_data' = (ehdr_of file_data)\<lparr>e_entry := e_entry (ehdr_of file_data')\<rparr> \<and>
            e_entry (ehdr_of file_data) \<noteq> 0 \<and> e_entry (ehdr_of file_data') \<noteq> 0 \<and>
            load_elf_and_init_memory path m entry_point0 initial_brk s = Some (r, m', e, b', s') \<longrightarrow>
            (\<exists>e' t'. load_elf_and_init_memory path m entry_point0 initial_brk t =
                        Some (r, m', e', b', t') \<and>
                      same_but_data s' t' \<and>
                      (e' = entry_point0 \<and> e = entry_point0 \<or>
                       e' = e_entry (ehdr_of file_data') \<and> e = e_entry (ehdr_of file_data))))"
proof (intro conjI impI allI)
  assume "e_entry (ehdr_of file_data) = 0"
  then have "elf_header_invalid file_data" by (simp add: elf_header_invalid_def Let_def)
  with assms show "load_elf_and_init_memory path m entry_point0 initial_brk s =
              Some (- 1, m, entry_point0, initial_brk, kfree ObjFileData s)"
    by (simp add: load_elf_header_rejected)
next
  assume a: "pool_aligned s \<and> \<not> length file_data < sizeof_Elf32_Ehdr \<and>
          \<not> elf_header_invalid file_data"
  show "\<exists>r m' b' s'. load_elf_and_init_memory path m entry_point0 initial_brk s =
                       Some (r, m', e_entry (ehdr_of file_data), b', s') \<and>
               (r \<noteq> 0 \<longrightarrow> (\<exists>ph \<in> set (program_headers file_data). loadable ph))"
  proof (cases "\<exists>ph \<in> set (program_headers file_data). loadable ph")
    case True
    from a load_elf_header_accepted [OF assms, of m entry_point0 initial_brk]
    obtain ok m' b' s' where
      "load_elf_and_init_memory path m entry_point0 initial_brk s =
             Some (if ok then 0 else - 1, m', e_entry (ehdr_of file_data),
                   if ok then b' else initial_brk, s')"
      by blast
    with True show ?thesis by blast
  next
    case False
    then have "load_segments file_data (program_headers file_data) m 0 s = Some (True, m, 0, s)"
      by (simp add: load_segments_none_loadable)
    with a assms have "load_elf_and_init_memory path m entry_point0 initial_brk s =
        Some (0, m, e_entry (ehdr_of file_data),
              (if PAGE_ALIGN_UP 0 < 0 then UINTPTR_MAX else PAGE_ALIGN_UP 0), kfree ObjFileData s)"
      unfolding load_elf_and_init_memory_def program_headers_def [symmetric] by simp
    then show ?thesis by blast
  qed
next
  fix t file_data' r m' e b' s'
  assume h: "read_file path t = Some file_data' \<and> same_but_data s t \<and>
            length file_data' = length file_data \<and>
            program_headers file_data' = program_headers file_data \<and>
            ehdr_of file_data' = (ehdr_of file_data)\<lparr>e_entry := e_entry (ehdr_of file_data')\<rparr> \<and>
            e_entry (ehdr_of file_data) \<noteq> 0 \<and> e_entry (ehdr_of file_data') \<noteq> 0 \<and>
            load_elf_and_init_memory path m entry_point0 initial_brk s = Some (r, m', e, b', s')"
  then have hdr: "ehdr_of file_data' = (ehdr_of file_data)\<lparr>e_entry := e_entry (ehdr_of file_data')\<rparr>"
    by (elim conjE)
  from h show "\<exists>e' t'. load_elf_and_init_memory path m entry_point0 initial_brk t =
                        Some (r, m', e', b', t') \<and>
                      same_but_data s' t' \<and>
                      (e' = entry_point0 \<and> e = entry_point0 \<or>
                       e' = e_entry (ehdr_of file_data') \<and> e = e_entry (ehdr_of file_data))"
    by (intro load_elf_entry_independent [OF assms _ _ _ _ hdr]) simp_all
qed

lemma load_one_segment_eval:
  "\<exists>m' b s'. load_elf_and_init_memory ''/kernel.bin'' (new_mm 0x2000) 0 0
      (boot_state [0x100000, 0x101000, 0x102000, 0x103000]
         (elf_image 0x08048000 [load_segment 0x08048000 0 4 4])) =
     Some (0, m', 0x08048000, b, s')"
  by (simp add: eval_defs)

text \<open>
  A file with entry point 0 is rejected; a file with entry point \<open>0xC0100000\<close> and a valid
  header is loaded and reports it; and this file is accepted (result 0) as the file that
  differs from it only in its entry point \<open>0x08048000\<close> is, with the same descriptor and
  the same break.
\<close>

theorem load_elf_entry_point_check_witness:
  "load_elf_and_init_memory ''/kernel.bin'' (new_mm 0x2000) 0 0
      (boot_state [0x100000, 0x101000, 0x102000, 0x103000]
         (elf_image 0 [load_segment 0x08048000 0 4 4])) =
     Some (- 1, new_mm 0x2000, 0, 0,
           kfree ObjFileData (boot_state [0x100000, 0x101000, 0x102000, 0x103000]
             (elf_image 0 [load_segment 0x08048000 0 4 4]))) \<and>
   (\<exists>r m' b' s'. load_elf_and_init_memory ''/kernel.bin'' (new_mm 0x2000) 0 0
      (boot_state [0x100000, 0x101000, 0x102000, 0x103000]
         (elf_image 0xC0100000 [load_segment 0x08048000 0 4 4])) =
     Some (r, m', 0xC0100000, b', s')) \<and>
   KERNEL_VIRT_BASE \<le> 0xC0100000 \<and>
   (\<exists>m' b' s' t'.
      load_elf_and_init_memory ''/kernel.bin'' (new_mm 0x2000) 0 0
        (boot_state [0x100000, 0x101000, 0x102000, 0x103000]
           (elf_image 0x08048000 [load_segment 0x08048000 0 4 4])) =
        Some (0, m', 0x08048000, b', s') \<and>
      load_elf_and_init_memory ''/kernel.bin'' (new_mm 0x2000) 0 0
        (boot_state [0x100000, 0x101000, 0x102000, 0x103000]
           (elf_image 0xC0100000 [load_segment 0x08048000 0 4 4])) =
        Some (0, m', 0xC0100000, b', t') \<and> same_but_data s' t')"
proof -
  let ?zero = "elf_image 0 [load_segment 0x08048000 0 4 4]"
  let ?low = "elf_image 0x08048000 [load_segment 0x08048000 0 4 4]"
  let ?high = "elf_image 0xC0100000 [load_segment 0x08048000 0 4 4]"
  let ?pool = "[0x100000, 0x101000, 0x102000, 0x103000] :: u32 list"
  have r1: "read_file ''/kernel.bin'' (boot_state ?pool ?zero) = Some ?zero"
    by (rule eval_read_file) (simp add: elf_defs)
  have r2: "read_file ''/kernel.bin'' (boot_state ?pool ?high) = Some ?high"
    by (rule eval_read_file) (simp add: elf_defs)
  have r3: "read_file ''/kernel.bin'' (boot_state ?pool ?low) = Some ?low"
    by (rule eval_read_file) (simp add: elf_defs)
  have h1: "e_entry (ehdr_of ?zero) = 0"
    by (simp add: elf_defs)
  have h2: "\<not> length ?high < sizeof_Elf32_Ehdr" "\<not> elf_header_invalid ?high"
    by (simp_all add: elf_defs elf_consts)
  have e: "e_entry (ehdr_of ?high) = 0xC0100000" "e_entry (ehdr_of ?low) = 0x08048000"
    by (simp_all add: elf_defs)
  have k: "KERNEL_VIRT_BASE \<le> 0xC0100000" by (simp add: KERNEL_VIRT_BASE_def)
  have same: "same_but_data (boot_state ?pool ?low) (boot_state ?pool ?high)"
    by (simp add: same_but_data_def boot_state_def)
  have len: "length ?high = length ?low" by (simp add: elf_defs)
  have ph: "program_headers ?high = program_headers ?low"
    by (simp add: program_headers_def elf_defs elf_consts)
  have hdr: "ehdr_of ?high = (ehdr_of ?low)\<lparr>e_entry := e_entry (ehdr_of ?high)\<rparr>"
    by (simp add: elf_defs)
  obtain m' b s' where run: "load_elf_and_init_memory ''/kernel.bin'' (new_mm 0x2000) 0 0
      (boot_state ?pool ?low) = Some (0, m', 0x08048000, b, s')"
    using load_one_segment_eval by blast
  note t3 = load_elf_entry_point_check [OF r3, of "new_mm 0x2000" 0 0]
  from t3 r2 same len ph hdr e run
  have "\<exists>e' t'. load_elf_and_init_memory ''/kernel.bin'' (new_mm 0x2000) 0 0
           (boot_state ?pool ?high) = Some (0, m', e', b, t') \<and> same_but_data s' t' \<and>
          (e' = 0 \<and> (0x08048000 :: u32) = 0 \<or> e' = 0xC0100000 \<and> (0x08048000 :: u32) = 0x08048000)"
    by (elim conjE allE [of _ "boot_state ?pool ?high"] allE [of _ ?high] allE [of _ 0]
          allE [of _ m'] allE [of _ "0x08048000"] allE [of _ b] allE [of _ s']) simp
  then obtain t' where "load_elf_and_init_memory ''/kernel.bin'' (new_mm 0x2000) 0 0
           (boot_state ?pool ?high) = Some (0, m', 0xC0100000, b, t')" "same_but_data s' t'"
    by auto
  with run have c3: "\<exists>m' b' s' t'.
      load_elf_and_init_memory ''/kernel.bin'' (new_mm 0x2000) 0 0 (boot_state ?pool ?low) =
        Some (0, m', 0x08048000, b', s') \<and>
      load_elf_and_init_memory ''/kernel.bin'' (new_mm 0x2000) 0 0 (boot_state ?pool ?high) =
        Some (0, m', 0xC0100000, b', t') \<and> same_but_data s' t'"
    by blast
  from load_elf_entry_point_check [OF r1, of "new_mm 0x2000" 0 0] h1
    load_elf_entry_point_check [OF r2, of "new_mm 0x2000" 0 0] h2 eval_pool_aligned [of ?high]
  have c12: "load_elf_and_init_memory ''/kernel.bin'' (new_mm 0x2000) 0 0 (boot_state ?pool ?zero) =
     Some (- 1, new_mm 0x2000, 0, 0, kfree ObjFileData (boot_state ?pool ?zero)) \<and>
   (\<exists>r m' b' s'. load_elf_and_init_memory ''/kernel.bin'' (new_mm 0x2000) 0 0
      (boot_state ?pool ?high) = Some (r, m', 0xC0100000, b', s'))"
    unfolding e by blast
  from c12 k c3 show ?thesis by blast
qed

text \<open>
  Claim C9 as stated fails: for an executable with entry point \<open>0xC0100000\<close> the load succeeds
  and the process is created with that entry point.
\<close>

theorem create_user_process_kernel_entry_point:
  "KERNEL_VIRT_BASE \<le> 0xC0100000 \<and>
   (\<exists>m' b s'. load_elf_and_init_memory ''/kernel.bin'' (new_mm 0x2000) 0 0
      (boot_state [0x100000, 0x101000, 0x102000, 0x103000]
         (elf_image 0xC0100000 [load_segment 0x08048000 0 4 4])) =
     Some (0, m', 0xC0100000, b, s')) \<and>
   (\<exists>pcb s'. create_user_process test_config ''/kernel.bin''
      (boot_state [0x100000, 0x101000, 0x102000, 0x103000, 0x104000, 0x105000, 0x106000,
                   0x107000, 0x108000, 0x109000]
         (elf_image 0xC0100000 [load_segment 0x08048000 0 4 4])) = Some (Some pcb, s') \<and>
      entry_point pcb = 0xC0100000)"
  by (simp add: eval_defs create_user_process_def load_user_image_def setup_user_stack_def
       fail_create_def init_page_directory_def prepare_initial_kernel_stack_def push32_def
       allocate_kernel_stack_def test_config_def zeroed_pcb_def
       alloc_stack_frames_numeral alloc_stack_frames_one)

section \<open>Properties of \<open>create_user_process\<close>\<close>

subsection \<open>Invariants of the steps\<close>

lemma quiet_refl [simp]: "quiet s s"
  by (simp add: quiet_def)

lemma quiet_trans: "quiet s s1 \<Longrightarrow> quiet s1 s2 \<Longrightarrow> quiet s s2"
  by (auto simp: quiet_def)

lemma rec_kept_refl [simp]: "rec_kept s s"
  by (simp add: rec_kept_def)

lemma rec_kept_trans: "rec_kept s s1 \<Longrightarrow> rec_kept s1 s2 \<Longrightarrow> rec_kept s s2"
  by (simp add: rec_kept_def)

lemma stack_unmapped_after: "quiet s s1 \<Longrightarrow> stack_unmapped cfg t s1 s2 \<Longrightarrow> stack_unmapped cfg t s s2"
  by (auto simp: quiet_def stack_unmapped_def)

lemma stack_unmapped_before: "stack_unmapped cfg t s s1 \<Longrightarrow> quiet s1 s2 \<Longrightarrow> stack_unmapped cfg t s s2"
  by (auto simp: quiet_def stack_unmapped_def)

lemma temp_map_fields [simp]:
  "trace (snd (paging_temp_map p s)) = trace s @ [EvTempMap p (fst (paging_temp_map p s) \<noteq> 0)]"
  "g_kernel_page_directory_phys (snd (paging_temp_map p s)) = g_kernel_page_directory_phys s"
  "tss_esp0 (snd (paging_temp_map p s)) = tss_esp0 s"
  "files (snd (paging_temp_map p s)) = files s"
  "pool (snd (paging_temp_map p s)) = pool s"
  "pd_words (snd (paging_temp_map p s)) = pd_words s"
  "pt_words (snd (paging_temp_map p s)) = pt_words s"
  "kvmem (snd (paging_temp_map p s)) = kvmem s"
  by (simp_all add: paging_temp_map_def split_beta PAGING_TEMP_VADDR_def)

lemma temp_unmap_fields [simp]:
  "trace (paging_temp_unmap v s) = trace s @ [EvTempUnmap]"
  "g_kernel_page_directory_phys (paging_temp_unmap v s) = g_kernel_page_directory_phys s"
  "tss_esp0 (paging_temp_unmap v s) = tss_esp0 s"
  "files (paging_temp_unmap v s) = files s"
  "pool (paging_temp_unmap v s) = pool s"
  "pd_words (paging_temp_unmap v s) = pd_words s"
  "pt_words (paging_temp_unmap v s) = pt_words s"
  "kvmem (paging_temp_unmap v s) = kvmem s"
  by (simp_all add: paging_temp_unmap_def)

lemma mem_frame_fields [simp]:
  "trace (memcpy_to_frame f src off n s) = trace s"
  "g_kernel_page_directory_phys (memcpy_to_frame f src off n s) = g_kernel_page_directory_phys s"
  "tss_esp0 (memcpy_to_frame f src off n s) = tss_esp0 s"
  "files (memcpy_to_frame f src off n s) = files s"
  "pool (memcpy_to_frame f src off n s) = pool s"
  "pd_words (memcpy_to_frame f src off n s) = pd_words s"
  "pt_words (memcpy_to_frame f src off n s) = pt_words s"
  "kvmem (memcpy_to_frame f src off n s) = kvmem s"
  "trace (memset_frame f off c n s) = trace s"
  "g_kernel_page_directory_phys (memset_frame f off c n s) = g_kernel_page_directory_phys s"
  "tss_esp0 (memset_frame f off c n s) = tss_esp0 s"
  "files (memset_frame f off c n s) = files s"
  "pool (memset_frame f off c n s) = pool s"
  "pd_words (memset_frame f off c n s) = pd_words s"
  "pt_words (memset_frame f off c n s) = pt_words s"
  "kvmem (memset_frame f off c n s) = kvmem s"
  by (simp_all add: memcpy_to_frame_def memset_frame_def)

lemma create_mm_fields [simp]:
  "trace (snd (create_mm pd s)) = trace s @ [EvCreateMm pd (fst (create_mm pd s) \<noteq> None)]"
  "g_kernel_page_directory_phys (snd (create_mm pd s)) = g_kernel_page_directory_phys s"
  "tss_esp0 (snd (create_mm pd s)) = tss_esp0 s"
  "files (snd (create_mm pd s)) = files s"
  "pool (snd (create_mm pd s)) = pool s"
  "pd_words (snd (create_mm pd s)) = pd_words s"
  "pt_words (snd (create_mm pd s)) = pt_words s"
  "kvmem (snd (create_mm pd s)) = kvmem s"
  by (simp_all add: create_mm_def split_beta)

lemma quiet_prims [simp]:
  "quiet s (snd (frame_alloc s))"
  "quiet s (put_frame p s)"
  "quiet s (snd (paging_map_single_4k pd v p fl s))"
  "quiet s (paging_unmap_range pd v n s)"
  "quiet s (snd (kmalloc obj s))"
  "quiet s (kfree obj s)"
  "quiet s (put_frames fs s)"
  "quiet s (snd (paging_temp_map p s))"
  "quiet s (paging_temp_unmap v s)"
  "quiet s (memcpy_to_frame f src off k s)"
  "quiet s (memset_frame f off c k s)"
  "quiet s (snd (create_mm pd s))"
  "quiet s (destroy_mm m s)"
  by (simp_all add: quiet_def)

lemma copy_elf_segment_data_quiet:
  "copy_elf_segment_data f fd off n z s = Some (r, s') \<Longrightarrow> quiet s s'"
  by (auto simp: copy_elf_segment_data_def Let_def quiet_def split_beta split: if_splits)

lemma copy_elf_segment_data_words:
  "copy_elf_segment_data f fd off n z s = Some (r, s') \<Longrightarrow>
     pd_words s' = pd_words s \<and> pt_words s' = pt_words s \<and> kvmem s' = kvmem s"
  by (auto simp: copy_elf_segment_data_def Let_def split_beta split: if_splits)

lemma pde_index_low: 
  assumes "v < 0xFFC00000"
  shows "PDE_INDEX v \<noteq> RECURSIVE_PDE_INDEX"
proof -
  from assms have v: "unat v < 4290772992" by (simp add: word_less_nat_alt)
  have "unat (drop_bit 22 v) = drop_bit 22 (unat v)"
    by (rule unat_drop_bit_eq)
  then have "unat (drop_bit 22 v) = unat v div 2 ^ 22"
    by (simp only: drop_bit_eq_div)
  with v have d: "unat (drop_bit 22 v) < 1023" by simp
  have "drop_bit 22 v AND 0x3FF \<le> drop_bit 22 v" by (rule word_and_le2)
  then have "unat (drop_bit 22 v AND 0x3FF) \<le> unat (drop_bit 22 v)" by (simp add: word_le_nat_alt)
  with d have "unat (PDE_INDEX v) < 1023" by (simp add: PDE_INDEX_def)
  then show ?thesis by (auto simp: RECURSIVE_PDE_INDEX_def)
qed

lemma map_single_raw_low:
  "PDE_INDEX v \<noteq> RECURSIVE_PDE_INDEX \<Longrightarrow>
     pd_words (snd (map_single_raw pd v p fl s)) pd' RECURSIVE_PDE_INDEX = pd_words s pd' RECURSIVE_PDE_INDEX"
  by (simp add: map_single_raw_def split_beta)

lemma map_single_raw_user:
  "fl AND PAGE_USER \<noteq> 0 \<Longrightarrow>
     pd_words (snd (map_single_raw pd v p fl s)) pd' RECURSIVE_PDE_INDEX = pd_words s pd' RECURSIVE_PDE_INDEX"
proof (cases "v < KERNEL_VIRT_BASE")
  case True
  then have "v < 0xFFC00000" by (simp add: KERNEL_VIRT_BASE_def word_less_nat_alt)
  then show ?thesis by (simp add: map_single_raw_low pde_index_low)
next
  case False
  assume "fl AND PAGE_USER \<noteq> 0"
  with False show ?thesis by (simp add: map_single_raw_def not_less)
qed

lemma paging_map_single_4k_user:
  "fl AND PAGE_USER \<noteq> 0 \<Longrightarrow> rec_kept s (snd (paging_map_single_4k pd v p fl s))"
  by (simp add: rec_kept_def paging_map_single_4k_def split_beta map_single_raw_user)

lemma paging_map_single_4k_low:
  "v < 0xFFC00000 \<Longrightarrow> rec_kept s (snd (paging_map_single_4k pd v p fl s))"
  by (simp add: rec_kept_def paging_map_single_4k_def split_beta map_single_raw_low pde_index_low)

lemma rec_kept_prims [simp]:
  "rec_kept s (snd (frame_alloc s))"
  "rec_kept s (put_frame p s)"
  "rec_kept s (paging_unmap_range pd v n s)"
  "rec_kept s (snd (kmalloc obj s))"
  "rec_kept s (kfree obj s)"
  "rec_kept s (put_frames fs s)"
  "rec_kept s (snd (paging_temp_map p s))"
  "rec_kept s (paging_temp_unmap v s)"
  "rec_kept s (snd (create_mm pd s))"
  by (simp_all add: rec_kept_def)

lemma copy_elf_segment_data_rec_kept:
  "copy_elf_segment_data f fd off n z s = Some (r, s') \<Longrightarrow> rec_kept s s'"
  by (simp add: rec_kept_def copy_elf_segment_data_words)

lemma load_segment_pages_quiet:
  assumes "load_segment_pages fd ph pgd prot pv ve s = Some y"
  shows "quiet s (snd y) \<and> kvmem (snd y) = kvmem s \<and>
         (prot AND PAGE_USER \<noteq> 0 \<longrightarrow> rec_kept s (snd y))"
  using assms
proof (induct fd ph pgd prot pv ve s y rule: load_segment_pages.raw_induct [rotated 1, consumes 1])
  case (1 lsp fd ph pgd prot pv ve s y)
  show ?case
  proof (cases "pv < ve")
    case False
    with 1(2) show ?thesis by auto
  next
    case True
    obtain f s1 where fa: "frame_alloc s = (f, s1)" by (cases "frame_alloc s")
    have q1: "quiet s s1" "rec_kept s s1" "kvmem s1 = kvmem s"
      using quiet_prims(1) [of s] rec_kept_prims(1) [of s] frame_alloc_fields [of s]
      by (simp_all add: fa)
    show ?thesis
    proof (cases "f = 0 \<or> PAGE_SIZE < copy_size_this_page ph pv + zero_padding_this_page ph pv")
      case True
      with 1(2) \<open>pv < ve\<close> fa have "snd y = s1 \<or> snd y = put_frame f s1"
        by (auto split: if_splits)
      then show ?thesis using q1 quiet_prims(2) [of s1 f] rec_kept_prims(2) [of s1 f]
        by (auto intro: quiet_trans rec_kept_trans)
    next
      case False
      obtain r s2 where ce: "copy_elf_segment_data f fd (file_buffer_offset ph pv)
               (copy_size_this_page ph pv) (zero_padding_this_page ph pv) s1 = Some (r, s2)"
        using 1(2) \<open>pv < ve\<close> fa False by (auto split: if_splits option.splits)
      have q2: "quiet s s2" "rec_kept s s2" "kvmem s2 = kvmem s"
        using q1 copy_elf_segment_data_quiet [OF ce] copy_elf_segment_data_rec_kept [OF ce]
          copy_elf_segment_data_words [OF ce]
        by (auto intro: quiet_trans rec_kept_trans)
      show ?thesis
      proof (cases "r = 0")
        case False
        with 1(2) \<open>pv < ve\<close> fa \<open>\<not> (f = 0 \<or> _)\<close> ce have "snd y = put_frame f s2"
          by (auto split: if_splits)
        then show ?thesis using q2 quiet_prims(2) [of s2 f] rec_kept_prims(2) [of s2 f]
          by (auto intro: quiet_trans rec_kept_trans)
      next
        case True
        obtain mr s3 where mp: "paging_map_single_4k pgd pv f prot s2 = (mr, s3)"
          by (cases "paging_map_single_4k pgd pv f prot s2")
        have q3: "quiet s s3" "prot AND PAGE_USER \<noteq> 0 \<longrightarrow> rec_kept s s3" "kvmem s3 = kvmem s"
          using q2 quiet_prims(3) [of s2 pgd pv f prot]
            paging_map_single_4k_user [of prot s2 pgd pv f]
            paging_map_single_4k_fields [of pgd pv f prot s2]
          by (auto simp: mp intro: quiet_trans rec_kept_trans)
        show ?thesis
        proof (cases "mr = MapOK")
          case False
          with 1(2) \<open>pv < ve\<close> fa \<open>\<not> (f = 0 \<or> _)\<close> ce True mp have "snd y = put_frame f s3"
            by (auto split: if_splits)
          then show ?thesis using q3 quiet_prims(2) [of s3 f] rec_kept_prims(2) [of s3 f]
            by (auto intro: quiet_trans rec_kept_trans)
        next
          case ok: True
          with 1(2) \<open>pv < ve\<close> fa \<open>\<not> (f = 0 \<or> _)\<close> ce True mp
          have "lsp fd ph pgd prot (pv + PAGE_SIZE) ve s3 = Some y"
            by (auto split: if_splits)
          from 1(1) [OF this] show ?thesis using q3
            by (auto intro: quiet_trans rec_kept_trans)
        qed
      qed
    qed
  qed
qed

lemma segment_page_prot_user: "segment_page_prot nx ph AND PAGE_USER \<noteq> 0"
proof -
  have "bit (segment_page_prot nx ph) 2"
    by (simp add: segment_page_prot_def PAGE_PRESENT_def PAGE_USER_def PAGE_RW_def PAGE_NX_BIT_def
          bit_simps)
  then have "bit (segment_page_prot nx ph AND PAGE_USER) 2"
    by (simp add: PAGE_USER_def bit_simps)
  then show ?thesis by auto
qed

lemma load_segments_quiet:
  "load_segments fd phs m h s = Some (r, m', h', s') \<Longrightarrow>
     quiet s s' \<and> rec_kept s s' \<and> kvmem s' = kvmem s \<and> pgd_phys m' = pgd_phys m"
proof (induction phs arbitrary: m h s)
  case Nil
  then show ?case by simp
next
  case (Cons ph rest)
  show ?case
  proof (cases "loadable ph")
    case False
    with Cons show ?thesis by (simp add: load_segments_skip)
  next
    case True
    show ?thesis
    proof (cases "segment_invalid (of_nat (length fd)) ph")
      case True
      with \<open>loadable ph\<close> Cons.prems show ?thesis by (simp add: load_segments_invalid)
    next
      case False
      note unfold = load_segments_valid [OF True False, of rest m h s]
      let ?prot = "segment_page_prot (g_nx_supported s) ph"
      show ?thesis
      proof (cases "insert_vma m (PAGE_ALIGN_DOWN (p_vaddr ph))
                (PAGE_ALIGN_UP (p_vaddr ph + p_memsz ph)) (segment_vma_flags ph) ?prot")
        case None
        with unfold Cons.prems show ?thesis by simp
      next
        case (Some m1)
        then have pg: "pgd_phys m1 = pgd_phys m"
          by (auto simp: insert_vma_def split: if_splits)
        from Cons.prems unfold Some obtain r1 s1 where
          lp: "load_segment_pages fd ph (pgd_phys m1) ?prot
                     (PAGE_ALIGN_DOWN (p_vaddr ph))
                     (PAGE_ALIGN_UP (p_vaddr ph + p_memsz ph)) s = Some (r1, s1)"
          by (auto split: option.splits)
        from load_segment_pages_quiet [OF lp] segment_page_prot_user [of "g_nx_supported s" ph]
        have q1: "quiet s s1" "rec_kept s s1" "kvmem s1 = kvmem s" by simp_all
        show ?thesis
        proof (cases r1)
          case False
          with unfold Some lp Cons.prems q1 pg show ?thesis by auto
        next
          case r1: True
          with unfold Some lp Cons.prems have
            "load_segments fd rest m1
               (if h < p_vaddr ph + p_memsz ph then p_vaddr ph + p_memsz ph else h) s1 =
             Some (r, m', h', s')" by simp
          from Cons.IH [OF this] q1 pg show ?thesis
            by (auto intro: quiet_trans rec_kept_trans)
        qed
      qed
    qed
  qed
qed

lemma load_elf_quiet:
  assumes "load_elf_and_init_memory path m e0 b0 s = Some (r, m', e, b, s')"
  shows "quiet s s' \<and> rec_kept s s' \<and> kvmem s' = kvmem s \<and> pgd_phys m' = pgd_phys m"
proof (cases "read_file path s")
  case None
  with assms show ?thesis by (auto simp: load_elf_and_init_memory_def)
next
  case (Some file_data)
  show ?thesis
  proof (cases "length file_data < sizeof_Elf32_Ehdr \<or> elf_header_invalid file_data")
    case True
    with assms Some load_elf_header_rejected [OF Some True, of m e0 b0] show ?thesis by auto
  next
    case False
    with assms Some obtain ok h s1 where
      ls: "load_segments file_data (program_headers file_data) m 0 s = Some (ok, m', h, s1)"
      and s': "s' = kfree ObjFileData s1"
      unfolding load_elf_and_init_memory_def program_headers_def [symmetric]
      by (auto split: option.splits bool.splits)
    from load_segments_quiet [OF ls] show ?thesis
      unfolding s' using quiet_prims(6) [of s1 ObjFileData] rec_kept_prims(5) [of s1 ObjFileData]
      by (auto intro: quiet_trans rec_kept_trans)
  qed
qed


lemma alloc_stack_frames_rec_kept:
  "alloc_stack_frames n acc s = (r, s') \<Longrightarrow> rec_kept s s'"
proof (induction n arbitrary: acc s)
  case 0
  then show ?case by simp
next
  case (Suc n)
  obtain f s1 where fa: "frame_alloc s = (f, s1)" by (cases "frame_alloc s")
  then have r1: "rec_kept s s1" using rec_kept_prims(1) [of s] by simp
  show ?case
  proof (cases "f = 0")
    case True
    with Suc.prems fa have "s' = put_frames acc s1" by simp
    with r1 rec_kept_prims(6) [of s1 acc] show ?thesis by (auto intro: rec_kept_trans)
  next
    case False
    with Suc.prems fa have "alloc_stack_frames n (acc @ [f]) s1 = (r, s')" by simp
    from Suc.IH [OF this] r1 show ?thesis by (rule rec_kept_trans [rotated])
  qed
qed

lemma map_stack_pages_rec_kept:
  "map_stack_pages base frames i rest s = (True, s') \<Longrightarrow>
   (\<forall>j. i \<le> j \<and> j < i + length rest \<longrightarrow> base + of_nat j * PAGE_SIZE < 0xFFC00000) \<Longrightarrow>
   rec_kept s s'"
proof (induction rest arbitrary: i s)
  case Nil
  then show ?case by simp
next
  case (Cons p rest)
  let ?kpd = "g_kernel_page_directory_phys s"
  let ?v = "base + of_nat i * PAGE_SIZE"
  obtain mr s1 where m: "paging_map_single_4k ?kpd ?v p PTE_KERNEL_DATA_FLAGS s = (mr, s1)"
    by (cases "paging_map_single_4k ?kpd ?v p PTE_KERNEL_DATA_FLAGS s")
  from Cons.prems(2) have "?v < 0xFFC00000" by simp
  from paging_map_single_4k_low [OF this, of s ?kpd p PTE_KERNEL_DATA_FLAGS] m
  have r1: "rec_kept s s1" by simp
  from Cons.prems(1) m have ok: "mr = MapOK"
    and rest: "map_stack_pages base frames (Suc i) rest s1 = (True, s')"
    by (auto split: if_splits)
  from Cons.prems(2) have "\<forall>j. Suc i \<le> j \<and> j < Suc i + length rest \<longrightarrow>
      base + of_nat j * PAGE_SIZE < 0xFFC00000" by simp
  from Cons.IH [OF rest this] r1 show ?case by (rule rec_kept_trans [rotated])
qed

lemma stack_page_below_end:
  assumes b: "\<not> kend \<le> (base :: u32)" and e: "kend = base + sz"
    and k: "\<not> KERNEL_STACK_VIRT_END < kend" and j: "j < unat (sz div PAGE_SIZE)"
  shows "base + of_nat j * PAGE_SIZE < 0xFFC00000"
proof -
  from b e have lt: "unat base < unat (base + sz)" by (simp add: word_le_nat_alt not_le)
  have "unat sz < 4294967296" using unsigned_less [of sz] by simp
  with lt have sum: "unat (base + sz) = unat base + unat sz"
    by (simp add: unat_plus_if' split: if_splits)
  from k e have ke: "unat base + unat sz \<le> 4026531840"
    by (simp add: KERNEL_STACK_VIRT_END_def word_less_nat_alt not_less sum)
  from j have j2: "j < unat sz div 4096" by (simp add: unat_div PAGE_SIZE_def)
  then have j3: "j * 4096 < unat sz"
    using div_times_less_eq_dividend [of "unat sz" 4096] by simp
  have "unat sz < 2 ^ 32" using unsigned_less [of sz] by simp
  with j2 have "j < 2 ^ 20" by simp
  then have m: "unat (of_nat j * PAGE_SIZE :: u32) = j * 4096" by (rule unat_page_mult)
  have "unat (base + of_nat j * PAGE_SIZE) = unat base + j * 4096"
    using ke j3 by (simp add: unat_plus_if' m)
  with ke j3 show ?thesis by (simp add: word_less_nat_alt)
qed

lemma allocate_kernel_stack_effect:
  assumes "allocate_kernel_stack cfg proc s = Some (ok, proc', s')"
  shows "quiet s s' \<and>
     page_directory_phys proc' = page_directory_phys proc \<and> pid proc' = pid proc \<and>
     entry_point proc' = entry_point proc \<and> user_stack_top proc' = user_stack_top proc \<and>
     mm proc' = mm proc \<and>
     (ok \<longrightarrow> rec_kept s s' \<and> kernel_stack_vaddr_top proc' \<noteq> 0) \<and>
     (\<not> ok \<longrightarrow> kernel_stack_vaddr_top proc' = kernel_stack_vaddr_top proc)"
proof (cases "PROCESS_KSTACK_SIZE cfg = 0 \<or> PROCESS_KSTACK_SIZE cfg mod PAGE_SIZE \<noteq> 0")
  case True
  with assms show ?thesis by (auto simp: allocate_kernel_stack_def)
next
  case size_ok: False
  define sz where "sz = PROCESS_KSTACK_SIZE cfg"
  obtain k s1 where km: "kmalloc ObjFrameList s = (k, s1)" by (cases "kmalloc ObjFrameList s")
  have q1: "quiet s s1" "rec_kept s s1"
    using quiet_prims(5) [of s ObjFrameList] rec_kept_prims(4) [of s ObjFrameList]
    by (simp_all add: km)
  show ?thesis
  proof (cases k)
    case False
    with assms size_ok km q1 show ?thesis by (auto simp: allocate_kernel_stack_def)
  next
    case True
    obtain fr s2 where al: "alloc_stack_frames (unat (sz div PAGE_SIZE)) [] s1 = (fr, s2)"
      by (cases "alloc_stack_frames (unat (sz div PAGE_SIZE)) [] s1")
    from alloc_stack_frames_events [OF al] have q2': "quiet s1 s2"
      and len: "\<forall>fs. fr = Some fs \<longrightarrow> length fs = unat (sz div PAGE_SIZE)"
      by (auto simp: quiet_def)
    from q1 q2' alloc_stack_frames_rec_kept [OF al] have q2: "quiet s s2" "rec_kept s s2"
      by (auto intro: quiet_trans rec_kept_trans)
    show ?thesis
    proof (cases fr)
      case None
      with assms size_ok km True al q2 quiet_prims(6) [of s2 ObjFrameList]
      show ?thesis by (auto simp: allocate_kernel_stack_def sz_def intro: quiet_trans)
    next
      case (Some fs)
      define base where "base = g_next_kernel_stack_virt_base s2"
      define kend where "kend = base + sz"
      define proc1 where "proc1 = proc\<lparr>kernel_stack_phys_base := fs ! 0\<rparr>"
      show ?thesis
      proof (cases "base < KERNEL_STACK_VIRT_START \<or> KERNEL_STACK_VIRT_END < kend \<or> kend \<le> base")
        case True
        with assms size_ok km \<open>k\<close> al Some
        have "s' = kfree ObjFrameList (put_frames fs s2)" "proc' = proc1" "\<not> ok"
          by (auto simp: allocate_kernel_stack_def sz_def Let_def base_def kend_def proc1_def)
        moreover have "quiet s (kfree ObjFrameList (put_frames fs s2))"
          using quiet_trans [OF q2(1) quiet_trans [OF quiet_prims(7) quiet_prims(6)]] .
        ultimately show ?thesis by (simp add: proc1_def)
      next
        case range_ok: False
        obtain r3 s3 where mp: "map_stack_pages base fs 0 fs
                    (s2\<lparr>g_next_kernel_stack_virt_base := kend\<rparr>) = (r3, s3)"
          by (cases "map_stack_pages base fs 0 fs (s2\<lparr>g_next_kernel_stack_virt_base := kend\<rparr>)")
        have q2b: "quiet s (s2\<lparr>g_next_kernel_stack_virt_base := kend\<rparr>)"
          "rec_kept s (s2\<lparr>g_next_kernel_stack_virt_base := kend\<rparr>)"
          using q2 by (simp_all add: quiet_def rec_kept_def)
        from map_stack_pages_events [OF mp]
        have "quiet (s2\<lparr>g_next_kernel_stack_virt_base := kend\<rparr>) s3"
          by (auto simp: quiet_def)
        with q2b have q3: "quiet s s3" by (auto intro: quiet_trans)
        from assms size_ok km \<open>k\<close> al Some range_ok mp
        have res: "ok = r3" "s' = (if r3 then kfree ObjFrameList s3 else s3)"
          "proc' = (if r3 then proc1\<lparr>kernel_stack_vaddr_top := kend\<rparr> else proc1)"
          by (auto simp: allocate_kernel_stack_def sz_def Let_def base_def kend_def proc1_def
                split: if_splits bool.splits)
        show ?thesis
        proof (cases r3)
          case False
          with res q3 show ?thesis by (simp add: proc1_def)
        next
          case True
          have "\<forall>j. 0 \<le> j \<and> j < 0 + length fs \<longrightarrow> base + of_nat j * PAGE_SIZE < 0xFFC00000"
            using range_ok len Some stack_page_below_end [of kend base sz]
            by (auto simp: kend_def)
          with mp True have "rec_kept (s2\<lparr>g_next_kernel_stack_virt_base := kend\<rparr>) s3"
            by (auto intro: map_stack_pages_rec_kept)
          with q2b have r3k: "rec_kept s s3" by (auto intro: rec_kept_trans)
          from range_ok have "kend \<noteq> 0"
            by (auto simp: KERNEL_STACK_VIRT_START_def not_le not_less word_less_nat_alt)
          with True res q3 r3k quiet_prims(6) [of s3 ObjFrameList]
            rec_kept_prims(5) [of s3 ObjFrameList]
          show ?thesis by (auto simp: proc1_def intro: quiet_trans rec_kept_trans)
        qed
      qed
    qed
  qed
qed


lemma free_kernel_stack_frames_quiet:
  assumes "free_kernel_stack_frames v stop s = Some s'"
  shows "quiet s s'"
  using assms
proof (induct v stop s s' rule: free_kernel_stack_frames.raw_induct [rotated 1, consumes 1])
  case (1 fksf v stop s s')
  show ?case
  proof (cases "v < stop")
    case False
    with 1(2) show ?thesis by simp
  next
    case True
    let ?kpd = "g_kernel_page_directory_phys s"
    obtain r s1 where gp: "paging_get_physical_address ?kpd v s = (r, s1)"
      by (cases "paging_get_physical_address ?kpd v s")
    from get_phys_step [OF gp] have q1: "quiet s s1" by (simp add: quiet_def)
    define s2 where "s2 = (case r of None \<Rightarrow> s1 | Some p \<Rightarrow> if p \<noteq> 0 then put_frame p s1 else s1)"
    have "quiet s1 s2" by (simp add: s2_def split: option.splits)
    with q1 have q2: "quiet s s2" by (rule quiet_trans)
    from 1(2) True gp have "fksf (v + PAGE_SIZE) stop s2 = Some s'"
      by (auto simp: s2_def split: option.splits)
    from 1(1) [OF this] q2 show ?thesis by (rule quiet_trans [rotated])
  qed
qed

lemma destroy_process_effect:
  assumes "destroy_process cfg pcb s = Some s'"
  shows "quiet s s' \<and>
     (kernel_stack_vaddr_top pcb \<noteq> 0 \<longrightarrow> stack_unmapped cfg (kernel_stack_vaddr_top pcb) s s')"
proof -
  let ?top = "kernel_stack_vaddr_top pcb"
  let ?sz = "PROCESS_KSTACK_SIZE cfg"
  define s1 where "s1 = (case mm pcb of Some m \<Rightarrow> destroy_mm m s | None \<Rightarrow> s)"
  have q1: "quiet s s1" by (simp add: s1_def split: option.splits)
  define fin where "fin = (\<lambda>s3. kfree (ObjPcb (pid pcb))
                     (if page_directory_phys pcb \<noteq> 0
                      then put_frame (page_directory_phys pcb) s3 else s3))"
  have qf: "quiet s3 (fin s3)" for s3
    using quiet_trans [OF quiet_prims(2) quiet_prims(6)] by (simp add: fin_def)
  show ?thesis
  proof (cases "?top = 0")
    case True
    with assms have "s' = fin s1" by (simp add: destroy_process_def s1_def fin_def Let_def)
    with q1 qf [of s1] True show ?thesis by (auto intro: quiet_trans)
  next
    case False
    with assms obtain s2 where
      fk: "free_kernel_stack_frames (?top - ?sz) ?top s1 = Some s2"
      and s': "s' = fin (paging_unmap_range (g_kernel_page_directory_phys s2) (?top - ?sz) ?sz s2)"
      by (auto simp: destroy_process_def s1_def fin_def Let_def split: option.splits)
    let ?s3 = "paging_unmap_range (g_kernel_page_directory_phys s2) (?top - ?sz) ?sz s2"
    from free_kernel_stack_frames_quiet [OF fk] q1 have q2: "quiet s s2" by (rule quiet_trans [rotated])
    then have g: "g_kernel_page_directory_phys s2 = g_kernel_page_directory_phys s"
      by (simp add: quiet_def)
    have "stack_unmapped cfg ?top s2 ?s3" by (simp add: stack_unmapped_def)
    with q2 have "stack_unmapped cfg ?top s ?s3" by (rule stack_unmapped_after)
    then have u: "stack_unmapped cfg ?top s s'" unfolding s' using qf by (rule stack_unmapped_before)
    have "quiet s ?s3" using q2 quiet_prims(4) by (rule quiet_trans)
    then have "quiet s s'" unfolding s' using qf by (rule quiet_trans)
    with u show ?thesis by simp
  qed
qed

lemma fail_create_effect:
  assumes "fail_create cfg proc f mapped s = Some (r, s')"
  shows "r = None \<and> quiet s s' \<and>
     (kernel_stack_vaddr_top proc \<noteq> 0 \<longrightarrow> stack_unmapped cfg (kernel_stack_vaddr_top proc) s s')"
proof -
  define s0 where "s0 = (if f \<noteq> 0 \<and> \<not> mapped then put_frame f s else s)"
  have q0: "quiet s s0" by (simp add: s0_def)
  from assms have d: "destroy_process cfg proc s0 = Some s'" and r: "r = None"
    by (auto simp: fail_create_def s0_def split: option.splits)
  from destroy_process_effect [OF d] q0 r show ?thesis
    by (auto intro: quiet_trans stack_unmapped_after)
qed

lemma prepare_initial_kernel_stack_effect:
  assumes "prepare_initial_kernel_stack cfg proc s = Some (proc', s')"
  shows "proc' = proc\<lparr>kernel_esp_for_switch := kernel_stack_vaddr_top proc - 20\<rparr> \<and>
     quiet s s' \<and> rec_kept s s' \<and>
     kvmem s' (kernel_stack_vaddr_top proc - 20) = entry_point proc \<and>
     kvmem s' (kernel_stack_vaddr_top proc - 16) = GDT_USER_CODE_SELECTOR cfg OR 3 \<and>
     kvmem s' (kernel_stack_vaddr_top proc - 12) = USER_EFLAGS_DEFAULT \<and>
     kvmem s' (kernel_stack_vaddr_top proc - 8) = user_stack_top proc \<and>
     kvmem s' (kernel_stack_vaddr_top proc - 4) = GDT_USER_DATA_SELECTOR cfg OR 3"
  using assms
  by (auto simp: prepare_initial_kernel_stack_def push32_def quiet_def rec_kept_def
        split: if_splits)


lemma user_data_flags_user: "PTE_USER_DATA_FLAGS AND PAGE_USER \<noteq> 0"
  by (simp add: PTE_USER_DATA_FLAGS_def PAGE_PRESENT_def PAGE_RW_def PAGE_USER_def PAGE_NX_BIT_def)

lemma setup_user_stack_effect:
  assumes "setup_user_stack cfg proc m b s = Some (r, s')"
  shows "quiet s s' \<and>
     (r = None \<longrightarrow> kernel_stack_vaddr_top proc \<noteq> 0 \<longrightarrow>
        stack_unmapped cfg (kernel_stack_vaddr_top proc) s s') \<and>
     (\<forall>pcb. r = Some pcb \<longrightarrow>
        rec_kept s s' \<and> page_directory_phys pcb = page_directory_phys proc \<and>
        entry_point pcb = entry_point proc \<and>
        kernel_stack_vaddr_top pcb = kernel_stack_vaddr_top proc \<and>
        user_stack_top pcb = USER_STACK_TOP_VIRT_ADDR cfg \<and>
        kernel_esp_for_switch pcb = kernel_stack_vaddr_top proc - 20 \<and>
        kvmem s' (kernel_stack_vaddr_top proc - 20) = entry_point proc \<and>
        kvmem s' (kernel_stack_vaddr_top proc - 16) = GDT_USER_CODE_SELECTOR cfg OR 3 \<and>
        kvmem s' (kernel_stack_vaddr_top proc - 12) = USER_EFLAGS_DEFAULT \<and>
        kvmem s' (kernel_stack_vaddr_top proc - 8) = USER_STACK_TOP_VIRT_ADDR cfg \<and>
        kvmem s' (kernel_stack_vaddr_top proc - 4) = GDT_USER_DATA_SELECTOR cfg OR 3)"
proof -
  let ?top = "kernel_stack_vaddr_top proc"
  define m1 where "m1 = (case insert_vma m b b
                       {VM_READ, VM_WRITE, VM_USER, VM_ANONYMOUS} PTE_USER_DATA_FLAGS of
                  None \<Rightarrow> m | Some m' \<Rightarrow> m')"
  from assms have pre: "USER_STACK_BOTTOM_VIRT cfg < USER_STACK_TOP_VIRT_ADDR cfg \<and>
                USER_STACK_TOP_VIRT_ADDR cfg \<le> KERNEL_VIRT_BASE \<and>
                USER_STACK_BOTTOM_VIRT cfg mod PAGE_SIZE = 0 \<and>
                USER_STACK_TOP_VIRT_ADDR cfg mod PAGE_SIZE = 0"
    by (auto simp: setup_user_stack_def Let_def split: if_splits)
  show ?thesis
  proof (cases "insert_vma m1 (USER_STACK_BOTTOM_VIRT cfg) (USER_STACK_TOP_VIRT_ADDR cfg)
                   {VM_READ, VM_WRITE, VM_USER, VM_GROWS_DOWN, VM_ANONYMOUS} PTE_USER_DATA_FLAGS")
    case None
    with assms pre have "fail_create cfg (proc\<lparr>mm := Some m1\<rparr>) 0 False s = Some (r, s')"
      by (simp add: setup_user_stack_def Let_def m1_def)
    from fail_create_effect [OF this] show ?thesis by simp
  next
    case (Some m2)
    define proc1 where "proc1 = proc\<lparr>mm := Some m2, user_stack_top := USER_STACK_TOP_VIRT_ADDR cfg\<rparr>"
    let ?v = "USER_STACK_TOP_VIRT_ADDR cfg - PAGE_SIZE"
    obtain f s1 where fa: "frame_alloc s = (f, s1)" by (cases "frame_alloc s")
    have q1: "quiet s s1" "rec_kept s s1"
      using quiet_prims(1) [of s] rec_kept_prims(1) [of s] by (simp_all add: fa)
    obtain mr s2 where mp: "paging_map_single_4k (page_directory_phys proc) ?v f
                                     PTE_USER_DATA_FLAGS s1 = (mr, s2)"
      by (cases "paging_map_single_4k (page_directory_phys proc) ?v f PTE_USER_DATA_FLAGS s1")
    have q2: "quiet s s2" "rec_kept s s2"
      using q1 quiet_prims(3) [of s1 "page_directory_phys proc" ?v f PTE_USER_DATA_FLAGS]
        paging_map_single_4k_user [OF user_data_flags_user, of s1 "page_directory_phys proc" ?v f]
      by (auto simp: mp intro: quiet_trans rec_kept_trans)
    from assms pre Some have body:
      "(if f = 0 then fail_create cfg proc1 0 False s1
        else if mr \<noteq> MapOK then fail_create cfg proc1 f False s2
        else (case prepare_initial_kernel_stack cfg proc1 s2 of
                None \<Rightarrow> None
              | Some (proc2, s3) \<Rightarrow> Some (Some proc2, s3))) = Some (r, s')"
      by (auto simp: setup_user_stack_def Let_def m1_def proc1_def fa mp split: if_splits)
    have top1: "kernel_stack_vaddr_top proc1 = ?top" by (simp add: proc1_def)
    show ?thesis
    proof (cases "f = 0")
      case True
      with body have "fail_create cfg proc1 0 False s1 = Some (r, s')" by simp
      from fail_create_effect [OF this] q1 show ?thesis
        unfolding top1 by (auto intro: quiet_trans stack_unmapped_after)
    next
      case f: False
      show ?thesis
      proof (cases "mr = MapOK")
        case False
        with body f have "fail_create cfg proc1 f False s2 = Some (r, s')" by simp
        from fail_create_effect [OF this] q2 show ?thesis
          unfolding top1 by (auto intro: quiet_trans stack_unmapped_after)
      next
        case True
        with body f obtain proc2 where
          pr: "prepare_initial_kernel_stack cfg proc1 s2 = Some (proc2, s')" and r: "r = Some proc2"
          by (auto split: option.splits)
        from prepare_initial_kernel_stack_effect [OF pr] q2 r show ?thesis
          by (auto simp: proc1_def intro: quiet_trans rec_kept_trans)
      qed
    qed
  qed
qed

lemma read_file_cong: "files s' = files s \<Longrightarrow> read_file path s' = read_file path s"
  by (simp add: read_file_def)

lemma load_elf_success_entry:
  assumes "load_elf_and_init_memory path m e0 b0 s = Some (0, m', e, b, s')"
  shows "\<exists>file_data. read_file path s = Some file_data \<and> e = e_entry (ehdr_of file_data)"
  using assms
  by (auto simp: load_elf_and_init_memory_def split: option.splits if_splits bool.splits)

lemma load_user_image_effect:
  assumes "load_user_image cfg path proc s = Some (r, s')"
  shows "(r = None \<longrightarrow> kernel_stack_vaddr_top proc \<noteq> 0 \<longrightarrow>
        (\<exists>pd ok post. trace s' = trace s @ EvTssSet (kernel_stack_vaddr_top proc) #
                                   EvCreateMm pd ok # post \<and>
           tss_writes post = [] \<and> tss_esp0 s' = kernel_stack_vaddr_top proc \<and>
           g_kernel_page_directory_phys s' = g_kernel_page_directory_phys s \<and>
           EvUnmapRange (g_kernel_page_directory_phys s)
             (kernel_stack_vaddr_top proc - PROCESS_KSTACK_SIZE cfg)
             (PROCESS_KSTACK_SIZE cfg) \<in> set post)) \<and>
     (\<forall>pcb. r = Some pcb \<longrightarrow>
        rec_kept s s' \<and> page_directory_phys pcb = page_directory_phys proc \<and>
        (\<exists>file_data. read_file path s = Some file_data \<and>
                      entry_point pcb = e_entry (ehdr_of file_data)) \<and>
        kernel_stack_vaddr_top pcb = kernel_stack_vaddr_top proc \<and>
        user_stack_top pcb = USER_STACK_TOP_VIRT_ADDR cfg \<and>
        kernel_esp_for_switch pcb = kernel_stack_vaddr_top proc - 20 \<and>
        kvmem s' (kernel_stack_vaddr_top proc - 20) = entry_point pcb \<and>
        kvmem s' (kernel_stack_vaddr_top proc - 16) = GDT_USER_CODE_SELECTOR cfg OR 3 \<and>
        kvmem s' (kernel_stack_vaddr_top proc - 12) = USER_EFLAGS_DEFAULT \<and>
        kvmem s' (kernel_stack_vaddr_top proc - 8) = USER_STACK_TOP_VIRT_ADDR cfg \<and>
        kvmem s' (kernel_stack_vaddr_top proc - 4) = GDT_USER_DATA_SELECTOR cfg OR 3)"
proof -
  let ?top = "kernel_stack_vaddr_top proc"
  let ?pd = "page_directory_phys proc"
  define s0 where "s0 = tss_set_kernel_stack ?top s"
  have s0: "trace s0 = trace s @ [EvTssSet ?top]" "tss_esp0 s0 = ?top" "files s0 = files s"
    "g_kernel_page_directory_phys s0 = g_kernel_page_directory_phys s" "pd_words s0 = pd_words s"
    by (simp_all add: s0_def tss_set_kernel_stack_def)
  obtain mo s1 where cm: "create_mm ?pd s0 = (mo, s1)" by (cases "create_mm ?pd s0")
  have s1: "trace s1 = trace s @ [EvTssSet ?top, EvCreateMm ?pd (mo \<noteq> None)]"
    "tss_esp0 s1 = ?top" "files s1 = files s"
    "g_kernel_page_directory_phys s1 = g_kernel_page_directory_phys s" "pd_words s1 = pd_words s"
    using create_mm_fields [of ?pd s0] s0 by (simp_all add: cm)
  have r01: "rec_kept s s1" using s1 by (simp add: rec_kept_def)
  have fail: "?thesis" if q: "quiet s1 s'" and u: "?top \<noteq> 0 \<longrightarrow> stack_unmapped cfg ?top s1 s'"
    and r: "r = None"
  proof -
    from q obtain evs where e: "trace s' = trace s1 @ evs" "tss_writes evs = []"
      and f: "tss_esp0 s' = ?top" "g_kernel_page_directory_phys s' = g_kernel_page_directory_phys s"
      using s1 by (auto simp: quiet_def)
    have "?top \<noteq> 0 \<longrightarrow> EvUnmapRange (g_kernel_page_directory_phys s) (?top - PROCESS_KSTACK_SIZE cfg)
             (PROCESS_KSTACK_SIZE cfg) \<in> set evs"
      using u e(1) s1(4) by (auto simp: stack_unmapped_def)
    with e f r s1(1) show ?thesis by auto
  qed
  show ?thesis
  proof (cases mo)
    case None
    with assms cm have "fail_create cfg proc 0 False s1 = Some (r, s')"
      by (simp add: load_user_image_def s0_def)
    from fail_create_effect [OF this] show ?thesis by (intro fail) simp_all
  next
    case (Some m)
    with assms cm obtain lr m1 entry brk s2 where
      le: "load_elf_and_init_memory path m (entry_point proc) 0 s1 = Some (lr, m1, entry, brk, s2)"
      and rest: "(if lr \<noteq> 0 then fail_create cfg (proc\<lparr>mm := Some m1, entry_point := entry\<rparr>) 0 False s2
               else setup_user_stack cfg (proc\<lparr>entry_point := entry\<rparr>)
                      (m1\<lparr>start_brk := brk, end_brk := brk\<rparr>) brk s2) = Some (r, s')"
      by (auto simp: load_user_image_def s0_def split: option.splits)
    from load_elf_quiet [OF le] have q2: "quiet s1 s2" "rec_kept s1 s2" by simp_all
    show ?thesis
    proof (cases "lr = 0")
      case False
      with rest have "fail_create cfg (proc\<lparr>mm := Some m1, entry_point := entry\<rparr>) 0 False s2 = Some (r, s')"
        by simp
      from fail_create_effect [OF this] q2 show ?thesis
        by (intro fail) (auto intro: quiet_trans stack_unmapped_after)
    next
      case True
      with rest have su: "setup_user_stack cfg (proc\<lparr>entry_point := entry\<rparr>)
                      (m1\<lparr>start_brk := brk, end_brk := brk\<rparr>) brk s2 = Some (r, s')" by simp
      note eff = setup_user_stack_effect [OF su]
      show ?thesis
      proof (cases r)
        case None
        with eff q2 show ?thesis
          by (intro fail) (auto intro: quiet_trans stack_unmapped_after)
      next
        case (Some pcb)
        from le True load_elf_success_entry [of path m "entry_point proc" 0 s1 m1 entry brk s2]
        obtain file_data where "read_file path s1 = Some file_data" "entry = e_entry (ehdr_of file_data)"
          by auto
        then have rf: "read_file path s = Some file_data \<and> entry = e_entry (ehdr_of file_data)"
          using read_file_cong [OF s1(3), of path] by simp
        from eff Some q2 r01 have "rec_kept s s'"
          by (auto intro: rec_kept_trans)
        with eff Some rf show ?thesis by auto
      qed
    qed
  qed
qed


lemma upt_5: "[0 ..< 5] = [0, 1, 2, 3, 4]"
  by (simp add: upt_rec)

lemma iret_frame_below:
  "iret_frame s (stack_top - 20) =
     [kvmem s (stack_top - 20), kvmem s (stack_top - 16), kvmem s (stack_top - 12),
      kvmem s (stack_top - 8), kvmem s (stack_top - 4)]"
  by (simp add: iret_frame_def upt_5)

lemma init_page_directory_fields:
  "trace (init_page_directory pd s) = trace s"
  "tss_esp0 (init_page_directory pd s) = tss_esp0 s"
  "files (init_page_directory pd s) = files s"
  "g_kernel_page_directory_phys (init_page_directory pd s) = g_kernel_page_directory_phys s"
  "pd_words (init_page_directory pd s) pd RECURSIVE_PDE_INDEX =
     (pd AND PAGING_ADDR_MASK) OR PAGE_PRESENT OR PAGE_RW OR PAGE_NX_BIT"
  by (simp_all add: init_page_directory_def copy_kernel_pde_entries_def Let_def)

text \<open>
  The steps of \<open>create_user_process\<close> up to the allocation of the kernel stack leave the TSS
  alone; a call that gets further continues with \<open>load_user_image\<close>.
\<close>

lemma create_user_process_cases:
  assumes "create_user_process cfg path s = Some (r, s')"
  shows "(r = None \<and> quiet s s') \<or>
     (\<exists>proc s4. quiet s s4 \<and> kernel_stack_vaddr_top proc \<noteq> 0 \<and>
        pd_words s4 (page_directory_phys proc) RECURSIVE_PDE_INDEX =
          (page_directory_phys proc AND PAGING_ADDR_MASK) OR PAGE_PRESENT OR PAGE_RW OR PAGE_NX_BIT \<and>
        load_user_image cfg path proc s4 = Some (r, s'))"
proof -
  obtain ok s0 where km: "kmalloc (ObjPcb (next_pid s)) s = (ok, s0)"
    by (cases "kmalloc (ObjPcb (next_pid s)) s")
  have q0: "quiet s s0" using quiet_prims(5) [of s "ObjPcb (next_pid s)"] by (simp add: km)
  show ?thesis
  proof (cases ok)
    case False
    with assms km q0 show ?thesis by (auto simp: create_user_process_def)
  next
    case True
    define proc where "proc = zeroed_pcb\<lparr>pid := next_pid s0\<rparr>"
    define s1 where "s1 = s0\<lparr>next_pid := next_pid s0 + 1\<rparr>"
    have q1: "quiet s s1" using q0 by (simp add: quiet_def s1_def)
    obtain pd s2 where fa: "frame_alloc s1 = (pd, s2)" by (cases "frame_alloc s1")
    have q2: "quiet s s2" using q1 quiet_prims(1) [of s1] by (auto simp: fa intro: quiet_trans)
    have top0: "kernel_stack_vaddr_top proc = 0" by (simp add: proc_def zeroed_pcb_def)
    show ?thesis
    proof (cases "pd = 0")
      case pd0: True
      with assms km True fa have "fail_create cfg proc 0 False s2 = Some (r, s')"
        by (simp add: create_user_process_def Let_def proc_def s1_def)
      from fail_create_effect [OF this] q2 show ?thesis by (auto intro: quiet_trans)
    next
      case pd: False
      define proc1 where "proc1 = proc\<lparr>page_directory_phys := pd\<rparr>"
      obtain tv s3 where tm: "paging_temp_map pd s2 = (tv, s3)" by (cases "paging_temp_map pd s2")
      have q3: "quiet s s3" using q2 quiet_prims(8) [of s2 pd] by (auto simp: tm intro: quiet_trans)
      show ?thesis
      proof (cases "tv = 0")
        case True
        with assms km \<open>ok\<close> fa pd tm have "fail_create cfg proc1 0 False s3 = Some (r, s')"
          by (simp add: create_user_process_def Let_def proc_def s1_def proc1_def)
        from fail_create_effect [OF this] q3 show ?thesis by (auto intro: quiet_trans)
      next
        case False
        define s3' where "s3' = paging_temp_unmap tv (init_page_directory pd s3)"
        have "quiet s3 s3'"
          by (simp add: quiet_def s3'_def init_page_directory_fields)
        with q3 have q3': "quiet s s3'" by (rule quiet_trans)
        have rec: "pd_words s3' pd RECURSIVE_PDE_INDEX =
            (pd AND PAGING_ADDR_MASK) OR PAGE_PRESENT OR PAGE_RW OR PAGE_NX_BIT"
          by (simp add: s3'_def init_page_directory_fields)
        from assms km \<open>ok\<close> fa pd tm False obtain k proc2 s4 where
          ak: "allocate_kernel_stack cfg proc1 s3' = Some (k, proc2, s4)"
          and rest: "(if k then load_user_image cfg path proc2 s4
                      else fail_create cfg proc2 0 False s4) = Some (r, s')"
          by (auto simp: create_user_process_def Let_def proc_def s1_def proc1_def s3'_def
                split: option.splits bool.splits)
        note eff = allocate_kernel_stack_effect [OF ak]
        from eff q3' have q4: "quiet s s4" by (auto intro: quiet_trans)
        show ?thesis
        proof (cases k)
          case False
          with rest have fc: "fail_create cfg proc2 0 False s4 = Some (r, s')" by simp
          from eff False top0 have "kernel_stack_vaddr_top proc2 = 0" by (simp add: proc1_def)
          with fail_create_effect [OF fc] q4 show ?thesis by (auto intro: quiet_trans)
        next
          case True
          with rest have lu: "load_user_image cfg path proc2 s4 = Some (r, s')" by simp
          from eff True have e: "rec_kept s3' s4" "page_directory_phys proc2 = pd"
            "kernel_stack_vaddr_top proc2 \<noteq> 0"
            by (simp_all add: proc1_def)
          with rec have "pd_words s4 (page_directory_phys proc2) RECURSIVE_PDE_INDEX =
            (page_directory_phys proc2 AND PAGING_ADDR_MASK) OR PAGE_PRESENT OR PAGE_RW OR PAGE_NX_BIT"
            by (simp add: rec_kept_def)
          with q4 lu e(3) show ?thesis by blast
        qed
      qed
    qed
  qed
qed

text \<open>
  Claim C1. When \<open>create_user_process\<close> returns a PCB, the five 32-bit words of the kernel
  stack at \<open>kernel_esp_for_switch\<close>, in ascending address order, are the entry point, the user
  code selector with RPL 3, \<open>0x202\<close>, the user stack top and the user data selector with
  RPL 3; \<open>kernel_esp_for_switch\<close> is 20 bytes below \<open>kernel_stack_vaddr_top\<close> (five words
  were pushed from the top downward, SS first and EIP last); the user stack top is
  \<open>USER_STACK_TOP_VIRT_ADDR\<close> and the entry point is \<open>e_entry\<close> of the file at \<open>path\<close>.
\<close>

theorem create_user_process_iret_frame:
  assumes "create_user_process cfg path s = Some (Some pcb, s')"
  shows "iret_frame s' (kernel_esp_for_switch pcb) =
           [entry_point pcb, GDT_USER_CODE_SELECTOR cfg OR 3, 0x202, user_stack_top pcb,
            GDT_USER_DATA_SELECTOR cfg OR 3] \<and>
         kernel_esp_for_switch pcb = kernel_stack_vaddr_top pcb - 20 \<and>
         user_stack_top pcb = USER_STACK_TOP_VIRT_ADDR cfg \<and>
         (\<exists>file_data. read_file path s = Some file_data \<and>
                       entry_point pcb = e_entry (ehdr_of file_data))"
proof -
  from create_user_process_cases [OF assms] obtain proc s4 where
    q: "quiet s s4" and lu: "load_user_image cfg path proc s4 = Some (Some pcb, s')"
    by auto
  from q have "files s4 = files s" by (simp add: quiet_def)
  then have rf: "read_file path s4 = read_file path s" by (rule read_file_cong)
  from load_user_image_effect [OF lu] rf show ?thesis
    by (auto simp: iret_frame_below USER_EFLAGS_DEFAULT_def)
qed

text \<open>
  Claim C4, as the code has it. When \<open>create_user_process\<close> returns a PCB, the last entry
  (index 1023) of its page directory holds the directory's physical address (masked with
  \<open>PAGING_ADDR_MASK\<close>) with the flags \<open>PAGE_PRESENT\<close>, \<open>PAGE_RW\<close> and \<open>PAGE_NX_BIT\<close>.
\<close>

theorem create_user_process_recursive_pde:
  assumes "create_user_process cfg path s = Some (Some pcb, s')"
  shows "pd_words s' (page_directory_phys pcb) RECURSIVE_PDE_INDEX =
           (page_directory_phys pcb AND PAGING_ADDR_MASK) OR PAGE_PRESENT OR PAGE_RW OR PAGE_NX_BIT"
proof -
  from create_user_process_cases [OF assms] obtain proc s4 where
    r: "pd_words s4 (page_directory_phys proc) RECURSIVE_PDE_INDEX =
          (page_directory_phys proc AND PAGING_ADDR_MASK) OR PAGE_PRESENT OR PAGE_RW OR PAGE_NX_BIT"
    and lu: "load_user_image cfg path proc s4 = Some (Some pcb, s')"
    by auto
  from load_user_image_effect [OF lu] r show ?thesis by (auto simp: rec_kept_def)
qed

lemma torn_down_after:
  "quiet s s1 \<Longrightarrow> torn_down cfg t pd p s1 s2 \<Longrightarrow> torn_down cfg t pd p s s2"
proof -
  assume q: "quiet s s1" and td: "torn_down cfg t pd p s1 s2"
  from q obtain evs where e: "trace s1 = trace s @ evs" "tss_writes evs = []"
    and g: "g_kernel_page_directory_phys s1 = g_kernel_page_directory_phys s"
    by (auto simp: quiet_def)
  from td obtain mid sd where m: "trace s2 = trace s1 @ mid @
          concat (map (stack_page_events sd) (stack_pages (PROCESS_KSTACK_SIZE cfg) t)) @
          [EvUnmapRange (g_kernel_page_directory_phys s1) (t - PROCESS_KSTACK_SIZE cfg)
             (PROCESS_KSTACK_SIZE cfg), EvPutFrame pd, EvKfree (ObjPcb p)]"
    "tss_writes mid = []" "g_kernel_page_directory_phys sd = g_kernel_page_directory_phys s1"
    by (auto simp: torn_down_def)
  show ?thesis
    unfolding torn_down_def
    by (rule exI [of _ "evs @ mid"], rule exI [of _ sd]) (simp add: e m g)
qed

lemma alloc_stack_frames_trace:
  "alloc_stack_frames n acc s = (Some fs, s') \<Longrightarrow>
     \<exists>new. fs = acc @ new \<and> length new = n \<and> trace s' = trace s @ map EvFrameAlloc new"
proof (induction n arbitrary: acc s)
  case 0
  then show ?case by simp
next
  case (Suc n)
  obtain f s1 where fa: "frame_alloc s = (f, s1)" by (cases "frame_alloc s")
  have t1: "trace s1 = trace s @ [EvFrameAlloc f]"
    using frame_alloc_fields(1) [of s] by (simp add: fa)
  from Suc.prems fa have rec: "alloc_stack_frames n (acc @ [f]) s1 = (Some fs, s')"
    by (auto split: if_splits)
  from Suc.IH [OF rec] obtain new where
    "fs = (acc @ [f]) @ new" "length new = n" "trace s' = trace s1 @ map EvFrameAlloc new"
    by blast
  then show ?case using t1 by (intro exI [of _ "f # new"]) simp
qed

lemma map_stack_pages_trace:
  "map_stack_pages base frames i rest s = (True, s') \<Longrightarrow>
     trace s' = trace s @
       map (\<lambda>(k, f). EvMapSingle (g_kernel_page_directory_phys s) (base + of_nat k * PAGE_SIZE) f
                       PTE_KERNEL_DATA_FLAGS MapOK)
         (zip [i ..< i + length rest] rest)"
proof (induction rest arbitrary: i s)
  case Nil
  then show ?case by simp
next
  case (Cons p rest)
  let ?kpd = "g_kernel_page_directory_phys s"
  let ?v = "base + of_nat i * PAGE_SIZE"
  obtain mr s1 where m: "paging_map_single_4k ?kpd ?v p PTE_KERNEL_DATA_FLAGS s = (mr, s1)"
    by (cases "paging_map_single_4k ?kpd ?v p PTE_KERNEL_DATA_FLAGS s")
  from Cons.prems m have ok: "mr = MapOK"
    and rest: "map_stack_pages base frames (Suc i) rest s1 = (True, s')"
    by (auto split: if_splits)
  have s1: "trace s1 = trace s @ [EvMapSingle ?kpd ?v p PTE_KERNEL_DATA_FLAGS MapOK]"
    "g_kernel_page_directory_phys s1 = ?kpd"
    using paging_map_single_4k_fields [of ?kpd ?v p PTE_KERNEL_DATA_FLAGS s] ok by (simp_all add: m)
  have "[i ..< i + Suc (length rest)] = i # [Suc i ..< Suc i + length rest]"
    using upt_conv_Cons [of i "i + Suc (length rest)"] by (simp del: upt_Suc)
  then have z: "zip [i ..< i + length (p # rest)] (p # rest) = (i, p) # zip [Suc i ..< Suc i + length rest] rest"
    by (simp del: upt_Suc)
  from Cons.IH [OF rest] show ?case unfolding z by (simp add: s1)
qed

lemma allocate_kernel_stack_trace:
  assumes "allocate_kernel_stack cfg proc s = Some (True, proc', s')"
  shows "\<exists>fs. trace s' = trace s @
            kernel_stack_events (g_kernel_page_directory_phys s)
              (kernel_stack_vaddr_top proc' - PROCESS_KSTACK_SIZE cfg) fs \<and>
          length fs = unat (PROCESS_KSTACK_SIZE cfg div PAGE_SIZE) \<and>
          PROCESS_KSTACK_SIZE cfg mod PAGE_SIZE = 0 \<and>
          PROCESS_KSTACK_SIZE cfg \<le> kernel_stack_vaddr_top proc'"
proof -
  define sz where "sz = PROCESS_KSTACK_SIZE cfg"
  from assms have size_ok: "sz \<noteq> 0" "sz mod PAGE_SIZE = 0"
    by (auto simp: allocate_kernel_stack_def sz_def Let_def split: if_splits)
  obtain k s1 where km: "kmalloc ObjFrameList s = (k, s1)" by (cases "kmalloc ObjFrameList s")
  from assms size_ok km have k: "k"
    by (auto simp: allocate_kernel_stack_def sz_def Let_def split: if_splits)
  have s1: "trace s1 = trace s @ [EvKmalloc ObjFrameList True]"
    "g_kernel_page_directory_phys s1 = g_kernel_page_directory_phys s"
    using kmalloc_fields [of ObjFrameList s] k by (simp_all add: km)
  obtain fr s2 where al: "alloc_stack_frames (unat (sz div PAGE_SIZE)) [] s1 = (fr, s2)"
    by (cases "alloc_stack_frames (unat (sz div PAGE_SIZE)) [] s1")
  from assms size_ok km k al obtain fs where fr: "fr = Some fs"
    by (cases fr) (auto simp: allocate_kernel_stack_def sz_def Let_def)
  from alloc_stack_frames_trace [OF al [unfolded fr]] have
    len: "length fs = unat (sz div PAGE_SIZE)" and t2: "trace s2 = trace s1 @ map EvFrameAlloc fs"
    by auto
  from alloc_stack_frames_events [OF al] have g2: "g_kernel_page_directory_phys s2 = g_kernel_page_directory_phys s1"
    by simp
  define base where "base = g_next_kernel_stack_virt_base s2"
  define kend where "kend = base + sz"
  from assms size_ok km k al fr have range_ok:
    "\<not> (base < KERNEL_STACK_VIRT_START \<or> KERNEL_STACK_VIRT_END < kend \<or> kend \<le> base)"
    by (auto simp: allocate_kernel_stack_def sz_def Let_def base_def kend_def split: if_splits)
  from assms size_ok km k al fr range_ok obtain s3 where
    mp: "map_stack_pages base fs 0 fs (s2\<lparr>g_next_kernel_stack_virt_base := kend\<rparr>) = (True, s3)"
    and res: "s' = kfree ObjFrameList s3" "kernel_stack_vaddr_top proc' = kend"
    by (auto simp: allocate_kernel_stack_def sz_def Let_def base_def kend_def
          split: if_splits bool.splits prod.splits)
  from map_stack_pages_trace [OF mp] have t3: "trace s3 = trace s2 @
       map (\<lambda>(k, f). EvMapSingle (g_kernel_page_directory_phys s2) (base + of_nat k * PAGE_SIZE) f
                       PTE_KERNEL_DATA_FLAGS MapOK) (zip [0 ..< length fs] fs)"
    by simp
  from range_ok have lt: "unat base < unat (base + sz)"
    by (simp add: kend_def word_le_nat_alt not_le)
  have "unat sz < 4294967296" using unsigned_less [of sz] by simp
  with lt have sum: "unat (base + sz) = unat base + unat sz"
    by (simp add: unat_plus_if' split: if_splits)
  then have le: "sz \<le> kend" by (simp add: kend_def word_le_nat_alt)
  have "kend - sz = base" by (simp add: kend_def)
  with t3 t2 s1 g2 res len size_ok le show ?thesis
    by (intro exI [of _ fs]) (simp add: kernel_stack_events_def sz_def [symmetric])
qed

lemma destroy_process_events:
  assumes al: "PROCESS_KSTACK_SIZE cfg mod PAGE_SIZE = 0"
    and top: "kernel_stack_vaddr_top pcb \<noteq> 0" and pd: "page_directory_phys pcb \<noteq> 0"
  shows "\<exists>s'. destroy_process cfg pcb s = Some s' \<and>
     trace s' = trace s @ mm_events pcb @
       concat (map (stack_page_events (mm_released pcb s))
                 (stack_pages (PROCESS_KSTACK_SIZE cfg) (kernel_stack_vaddr_top pcb))) @
       [EvUnmapRange (g_kernel_page_directory_phys s)
          (kernel_stack_vaddr_top pcb - PROCESS_KSTACK_SIZE cfg) (PROCESS_KSTACK_SIZE cfg),
        EvPutFrame (page_directory_phys pcb), EvKfree (ObjPcb (pid pcb))]"
proof -
  define s1 where "s1 = mm_released pcb s"
  from free_kernel_stack_frames_stack [OF al, of "kernel_stack_vaddr_top pcb" s1]
  obtain s2 where
    l: "free_kernel_stack_frames (kernel_stack_vaddr_top pcb - PROCESS_KSTACK_SIZE cfg)
          (kernel_stack_vaddr_top pcb) s1 = Some s2"
    and t: "trace s2 = trace s1 @ concat (map (stack_page_events s1)
              (stack_pages (PROCESS_KSTACK_SIZE cfg) (kernel_stack_vaddr_top pcb)))"
    and g: "g_kernel_page_directory_phys s2 = g_kernel_page_directory_phys s1"
    by blast
  have "destroy_process cfg pcb s =
     Some (kfree (ObjPcb (pid pcb)) (put_frame (page_directory_phys pcb)
             (paging_unmap_range (g_kernel_page_directory_phys s2)
                (kernel_stack_vaddr_top pcb - PROCESS_KSTACK_SIZE cfg) (PROCESS_KSTACK_SIZE cfg) s2)))"
    using top pd
    by (simp add: destroy_process_def s1_def mm_released_def l [unfolded s1_def mm_released_def])
  then show ?thesis using t g by (simp add: s1_def)
qed

lemma fail_create_teardown:
  assumes run: "fail_create cfg proc f mapped s = Some (r, s')"
    and al: "PROCESS_KSTACK_SIZE cfg mod PAGE_SIZE = 0"
    and top: "kernel_stack_vaddr_top proc \<noteq> 0" and pd: "page_directory_phys proc \<noteq> 0"
  shows "torn_down cfg (kernel_stack_vaddr_top proc) (page_directory_phys proc) (pid proc) s s'"
proof -
  define s0 where "s0 = (if f \<noteq> 0 \<and> \<not> mapped then put_frame f s else s)"
  have q0: "quiet s s0" by (simp add: s0_def)
  from run have d: "destroy_process cfg proc s0 = Some s'"
    by (auto simp: fail_create_def s0_def split: option.splits)
  from destroy_process_events [OF al top pd, of s0] d have
    t: "trace s' = trace s0 @ mm_events proc @
       concat (map (stack_page_events (mm_released proc s0))
                 (stack_pages (PROCESS_KSTACK_SIZE cfg) (kernel_stack_vaddr_top proc))) @
       [EvUnmapRange (g_kernel_page_directory_phys s0)
          (kernel_stack_vaddr_top proc - PROCESS_KSTACK_SIZE cfg) (PROCESS_KSTACK_SIZE cfg),
        EvPutFrame (page_directory_phys proc), EvKfree (ObjPcb (pid proc))]"
    by auto
  have "tss_writes (mm_events proc) = []" by (simp add: mm_events_def split: option.splits)
  then have "torn_down cfg (kernel_stack_vaddr_top proc) (page_directory_phys proc) (pid proc) s0 s'"
    unfolding torn_down_def
    by (intro exI [of _ "mm_events proc"] exI [of _ "mm_released proc s0"]) (simp add: t)
  with q0 show ?thesis by (rule torn_down_after)
qed


lemma setup_user_stack_teardown:
  assumes run: "setup_user_stack cfg proc m b s = Some (None, s')"
    and al: "PROCESS_KSTACK_SIZE cfg mod PAGE_SIZE = 0"
    and top: "kernel_stack_vaddr_top proc \<noteq> 0" and pd: "page_directory_phys proc \<noteq> 0"
  shows "torn_down cfg (kernel_stack_vaddr_top proc) (page_directory_phys proc) (pid proc) s s'"
proof -
  define m1 where "m1 = (case insert_vma m b b
                       {VM_READ, VM_WRITE, VM_USER, VM_ANONYMOUS} PTE_USER_DATA_FLAGS of
                  None \<Rightarrow> m | Some m' \<Rightarrow> m')"
  from run have pre: "USER_STACK_BOTTOM_VIRT cfg < USER_STACK_TOP_VIRT_ADDR cfg \<and>
                USER_STACK_TOP_VIRT_ADDR cfg \<le> KERNEL_VIRT_BASE \<and>
                USER_STACK_BOTTOM_VIRT cfg mod PAGE_SIZE = 0 \<and>
                USER_STACK_TOP_VIRT_ADDR cfg mod PAGE_SIZE = 0"
    by (auto simp: setup_user_stack_def Let_def split: if_splits)
  show ?thesis
  proof (cases "insert_vma m1 (USER_STACK_BOTTOM_VIRT cfg) (USER_STACK_TOP_VIRT_ADDR cfg)
                   {VM_READ, VM_WRITE, VM_USER, VM_GROWS_DOWN, VM_ANONYMOUS} PTE_USER_DATA_FLAGS")
    case None
    with run pre have "fail_create cfg (proc\<lparr>mm := Some m1\<rparr>) 0 False s = Some (None, s')"
      by (simp add: setup_user_stack_def Let_def m1_def)
    from fail_create_teardown [OF this al] top pd show ?thesis by simp
  next
    case (Some m2)
    define proc1 where "proc1 = proc\<lparr>mm := Some m2, user_stack_top := USER_STACK_TOP_VIRT_ADDR cfg\<rparr>"
    let ?v = "USER_STACK_TOP_VIRT_ADDR cfg - PAGE_SIZE"
    obtain f s1 where fa: "frame_alloc s = (f, s1)" by (cases "frame_alloc s")
    have q1: "quiet s s1" using quiet_prims(1) [of s] by (simp add: fa)
    obtain mr s2 where mp: "paging_map_single_4k (page_directory_phys proc) ?v f
                                     PTE_USER_DATA_FLAGS s1 = (mr, s2)"
      by (cases "paging_map_single_4k (page_directory_phys proc) ?v f PTE_USER_DATA_FLAGS s1")
    have q2: "quiet s s2"
      using q1 quiet_prims(3) [of s1 "page_directory_phys proc" ?v f PTE_USER_DATA_FLAGS]
      by (auto simp: mp intro: quiet_trans)
    from run pre Some have body:
      "(if f = 0 then fail_create cfg proc1 0 False s1
        else if mr \<noteq> MapOK then fail_create cfg proc1 f False s2
        else (case prepare_initial_kernel_stack cfg proc1 s2 of
                None \<Rightarrow> None
              | Some (proc2, s3) \<Rightarrow> Some (Some proc2, s3))) = Some (None, s')"
      by (auto simp: setup_user_stack_def Let_def m1_def proc1_def fa mp split: if_splits)
    have p1: "kernel_stack_vaddr_top proc1 = kernel_stack_vaddr_top proc"
      "page_directory_phys proc1 = page_directory_phys proc" "pid proc1 = pid proc"
      by (simp_all add: proc1_def)
    show ?thesis
    proof (cases "f = 0")
      case True
      with body have "fail_create cfg proc1 0 False s1 = Some (None, s')" by simp
      from fail_create_teardown [OF this al] top pd q1 show ?thesis
        unfolding p1 by (auto intro: torn_down_after)
    next
      case f: False
      with body have "mr \<noteq> MapOK" by (auto split: option.splits)
      with body f have "fail_create cfg proc1 f False s2 = Some (None, s')" by simp
      from fail_create_teardown [OF this al] top pd q2 show ?thesis
        unfolding p1 by (auto intro: torn_down_after)
    qed
  qed
qed

lemma load_user_image_teardown:
  assumes run: "load_user_image cfg path proc s = Some (None, s')"
    and al: "PROCESS_KSTACK_SIZE cfg mod PAGE_SIZE = 0"
    and top: "kernel_stack_vaddr_top proc \<noteq> 0" and pd: "page_directory_phys proc \<noteq> 0"
  shows "\<exists>ok mid sd.
     trace s' = trace s @
       [EvTssSet (kernel_stack_vaddr_top proc), EvCreateMm (page_directory_phys proc) ok] @ mid @
       concat (map (stack_page_events sd)
                 (stack_pages (PROCESS_KSTACK_SIZE cfg) (kernel_stack_vaddr_top proc))) @
       [EvUnmapRange (g_kernel_page_directory_phys s)
          (kernel_stack_vaddr_top proc - PROCESS_KSTACK_SIZE cfg) (PROCESS_KSTACK_SIZE cfg),
        EvPutFrame (page_directory_phys proc), EvKfree (ObjPcb (pid proc))] \<and>
     tss_writes mid = [] \<and> g_kernel_page_directory_phys sd = g_kernel_page_directory_phys s"
proof -
  let ?top = "kernel_stack_vaddr_top proc"
  let ?pd = "page_directory_phys proc"
  define s0 where "s0 = tss_set_kernel_stack ?top s"
  have s0: "trace s0 = trace s @ [EvTssSet ?top]"
    "g_kernel_page_directory_phys s0 = g_kernel_page_directory_phys s"
    by (simp_all add: s0_def tss_set_kernel_stack_def)
  obtain mo s1 where cm: "create_mm ?pd s0 = (mo, s1)" by (cases "create_mm ?pd s0")
  have s1: "trace s1 = trace s @ [EvTssSet ?top, EvCreateMm ?pd (mo \<noteq> None)]"
    "g_kernel_page_directory_phys s1 = g_kernel_page_directory_phys s"
    using create_mm_fields [of ?pd s0] s0 by (simp_all add: cm)
  have "torn_down cfg ?top ?pd (pid proc) s1 s'"
  proof (cases mo)
    case None
    with run cm have "fail_create cfg proc 0 False s1 = Some (None, s')"
      by (simp add: load_user_image_def s0_def)
    from fail_create_teardown [OF this al top pd] show ?thesis .
  next
    case (Some m)
    with run cm obtain lr m1 entry brk s2 where
      le: "load_elf_and_init_memory path m (entry_point proc) 0 s1 = Some (lr, m1, entry, brk, s2)"
      and rest: "(if lr \<noteq> 0 then fail_create cfg (proc\<lparr>mm := Some m1, entry_point := entry\<rparr>) 0 False s2
               else setup_user_stack cfg (proc\<lparr>entry_point := entry\<rparr>)
                      (m1\<lparr>start_brk := brk, end_brk := brk\<rparr>) brk s2) = Some (None, s')"
      by (auto simp: load_user_image_def s0_def split: option.splits)
    from load_elf_quiet [OF le] have q2: "quiet s1 s2" by simp
    show ?thesis
    proof (cases "lr = 0")
      case False
      with rest have "fail_create cfg (proc\<lparr>mm := Some m1, entry_point := entry\<rparr>) 0 False s2 = Some (None, s')"
        by simp
      from fail_create_teardown [OF this al] top pd q2 show ?thesis
        by (auto intro: torn_down_after)
    next
      case True
      with rest have su: "setup_user_stack cfg (proc\<lparr>entry_point := entry\<rparr>)
                      (m1\<lparr>start_brk := brk, end_brk := brk\<rparr>) brk s2 = Some (None, s')" by simp
      from setup_user_stack_teardown [OF su al] top pd q2 show ?thesis
        by (auto intro: torn_down_after)
    qed
  qed
  then obtain mid sd where "trace s' = trace s1 @ mid @
          concat (map (stack_page_events sd) (stack_pages (PROCESS_KSTACK_SIZE cfg) ?top)) @
          [EvUnmapRange (g_kernel_page_directory_phys s1) (?top - PROCESS_KSTACK_SIZE cfg)
             (PROCESS_KSTACK_SIZE cfg), EvPutFrame ?pd, EvKfree (ObjPcb (pid proc))]"
    "tss_writes mid = []" "g_kernel_page_directory_phys sd = g_kernel_page_directory_phys s1"
    by (auto simp: torn_down_def)
  then show ?thesis using s1 by auto
qed

text \<open>
  A call that gets past the allocation of the kernel stack has made exactly the calls of
  steps 1 to 4 and continues with \<open>load_user_image\<close>.
\<close>

lemma create_user_process_prefix:
  assumes run: "create_user_process cfg path s = Some (r, s')"
    and nq: "\<not> (r = None \<and> quiet s s')"
  shows "\<exists>proc s4 fs.
        trace s4 = trace s @
          [EvKmalloc (ObjPcb (next_pid s)) True, EvFrameAlloc (page_directory_phys proc),
           EvTempMap (page_directory_phys proc) True, EvTempUnmap] @
          kernel_stack_events (g_kernel_page_directory_phys s)
            (kernel_stack_vaddr_top proc - PROCESS_KSTACK_SIZE cfg) fs \<and>
        length fs = unat (PROCESS_KSTACK_SIZE cfg div PAGE_SIZE) \<and>
        PROCESS_KSTACK_SIZE cfg mod PAGE_SIZE = 0 \<and>
        PROCESS_KSTACK_SIZE cfg \<le> kernel_stack_vaddr_top proc \<and>
        g_kernel_page_directory_phys s4 = g_kernel_page_directory_phys s \<and>
        kernel_stack_vaddr_top proc \<noteq> 0 \<and> page_directory_phys proc \<noteq> 0 \<and>
        pid proc = next_pid s \<and>
        load_user_image cfg path proc s4 = Some (r, s')"
proof -
  obtain ok s0 where km: "kmalloc (ObjPcb (next_pid s)) s = (ok, s0)"
    by (cases "kmalloc (ObjPcb (next_pid s)) s")
  have q0: "quiet s s0" using quiet_prims(5) [of s "ObjPcb (next_pid s)"] by (simp add: km)
  have ok: ok
  proof (rule ccontr)
    assume "\<not> ok"
    with run km q0 nq show False by (auto simp: create_user_process_def)
  qed
  have s0: "trace s0 = trace s @ [EvKmalloc (ObjPcb (next_pid s)) True]"
    "g_kernel_page_directory_phys s0 = g_kernel_page_directory_phys s"
    "next_pid s0 = next_pid s"
    using ok km
    by (auto simp: kmalloc_def split_beta log_def)
  define proc where "proc = zeroed_pcb\<lparr>pid := next_pid s0\<rparr>"
  define s1 where "s1 = s0\<lparr>next_pid := next_pid s0 + 1\<rparr>"
  have q1: "quiet s s1" using q0 by (simp add: quiet_def s1_def)
  obtain pd s2 where fa: "frame_alloc s1 = (pd, s2)" by (cases "frame_alloc s1")
  have q2: "quiet s s2" using q1 quiet_prims(1) [of s1] by (auto simp: fa intro: quiet_trans)
  have "trace s2 = trace s1 @ [EvFrameAlloc pd]"
    "g_kernel_page_directory_phys s2 = g_kernel_page_directory_phys s1"
    using frame_alloc_fields [of s1] by (simp_all add: fa)
  then have s2: "trace s2 = trace s @ [EvKmalloc (ObjPcb (next_pid s)) True, EvFrameAlloc pd]"
    "g_kernel_page_directory_phys s2 = g_kernel_page_directory_phys s"
    using s0 by (simp_all add: s1_def)
  have top0: "kernel_stack_vaddr_top proc = 0" by (simp add: proc_def zeroed_pcb_def)
  have pd: "pd \<noteq> 0"
  proof
    assume "pd = 0"
    with run km ok fa have "fail_create cfg proc 0 False s2 = Some (r, s')"
      by (simp add: create_user_process_def Let_def proc_def s1_def)
    from fail_create_effect [OF this] q2 nq show False by (auto intro: quiet_trans)
  qed
  define proc1 where "proc1 = proc\<lparr>page_directory_phys := pd\<rparr>"
  obtain tv s3 where tm: "paging_temp_map pd s2 = (tv, s3)" by (cases "paging_temp_map pd s2")
  have q3: "quiet s s3" using q2 quiet_prims(8) [of s2 pd] by (auto simp: tm intro: quiet_trans)
  have tv: "tv \<noteq> 0"
  proof
    assume "tv = 0"
    with run km ok fa pd tm have "fail_create cfg proc1 0 False s3 = Some (r, s')"
      by (simp add: create_user_process_def Let_def proc_def s1_def proc1_def)
    from fail_create_effect [OF this] q3 nq show False by (auto intro: quiet_trans)
  qed
  define s3' where "s3' = paging_temp_unmap tv (init_page_directory pd s3)"
  have s3': "trace s3' = trace s @ [EvKmalloc (ObjPcb (next_pid s)) True, EvFrameAlloc pd,
                                    EvTempMap pd True, EvTempUnmap]"
    "g_kernel_page_directory_phys s3' = g_kernel_page_directory_phys s"
    using temp_map_fields [of pd s2] tv s2
    by (simp_all add: s3'_def init_page_directory_fields tm)
  have "quiet s3 s3'"
    by (simp add: quiet_def s3'_def init_page_directory_fields)
  with q3 have q3': "quiet s s3'" by (rule quiet_trans)
  from run km ok fa pd tm tv obtain k proc2 s4 where
    ak: "allocate_kernel_stack cfg proc1 s3' = Some (k, proc2, s4)"
    and rest: "(if k then load_user_image cfg path proc2 s4
                else fail_create cfg proc2 0 False s4) = Some (r, s')"
    by (auto simp: create_user_process_def Let_def proc_def s1_def proc1_def s3'_def
          split: option.splits bool.splits)
  note eff = allocate_kernel_stack_effect [OF ak]
  from eff q3' have q4: "quiet s s4" by (auto intro: quiet_trans)
  have k: k
  proof (rule ccontr)
    assume nk: "\<not> k"
    with rest have fc: "fail_create cfg proc2 0 False s4 = Some (r, s')" by simp
    from fail_create_effect [OF fc] q4 nq show False by (auto intro: quiet_trans)
  qed
  with rest have lu: "load_user_image cfg path proc2 s4 = Some (r, s')" by simp
  from ak k have ak': "allocate_kernel_stack cfg proc1 s3' = Some (True, proc2, s4)" by simp
  from eff k s0 have p2: "page_directory_phys proc2 = pd" "kernel_stack_vaddr_top proc2 \<noteq> 0"
    "pid proc2 = next_pid s"
    by (simp_all add: proc1_def proc_def)
  from allocate_kernel_stack_trace [OF ak'] obtain fs where
    t4: "trace s4 = trace s3' @ kernel_stack_events (g_kernel_page_directory_phys s3')
              (kernel_stack_vaddr_top proc2 - PROCESS_KSTACK_SIZE cfg) fs"
    and c2: "length fs = unat (PROCESS_KSTACK_SIZE cfg div PAGE_SIZE)"
    and c3: "PROCESS_KSTACK_SIZE cfg mod PAGE_SIZE = 0"
    and c4: "PROCESS_KSTACK_SIZE cfg \<le> kernel_stack_vaddr_top proc2"
    by (elim exE conjE)
  have c1: "trace s4 = trace s @
          [EvKmalloc (ObjPcb (next_pid s)) True, EvFrameAlloc (page_directory_phys proc2),
           EvTempMap (page_directory_phys proc2) True, EvTempUnmap] @
          kernel_stack_events (g_kernel_page_directory_phys s)
            (kernel_stack_vaddr_top proc2 - PROCESS_KSTACK_SIZE cfg) fs"
    unfolding t4 s3' p2(1) by simp
  have c5: "g_kernel_page_directory_phys s4 = g_kernel_page_directory_phys s"
    using q4 by (simp add: quiet_def)
  have c7: "page_directory_phys proc2 \<noteq> 0" using pd p2(1) by simp
  show ?thesis
    by (rule exI [of _ proc2], rule exI [of _ s4], rule exI [of _ fs])
       (intro conjI c1 c2 c3 c4 c5 p2(2) c7 p2(3) lu)
qed


lemma length_stack_pages:
  "stack_size \<le> stack_top \<Longrightarrow>
     length (stack_pages stack_size stack_top) = unat (stack_size div PAGE_SIZE)"
  by (simp add: stack_pages_def unat_div PAGE_SIZE_def)




lemma free_kernel_stack_frames_step:
  "v < stop \<Longrightarrow> free_kernel_stack_frames v stop s =
        (case paging_get_physical_address (g_kernel_page_directory_phys s) v s of
           (None, s1) \<Rightarrow> free_kernel_stack_frames (v + PAGE_SIZE) stop s1
         | (Some phys_addr, s1) \<Rightarrow>
             free_kernel_stack_frames (v + PAGE_SIZE) stop
               (if phys_addr \<noteq> 0 then put_frame phys_addr s1 else s1))"
  by (subst free_kernel_stack_frames.simps) (simp only: if_True)

lemmas process_defs = create_user_process_def load_user_image_def setup_user_stack_def
  fail_create_def init_page_directory_def prepare_initial_kernel_stack_def push32_def
  allocate_kernel_stack_def destroy_process_def test_config_def zeroed_pcb_def
  alloc_stack_frames_numeral alloc_stack_frames_one
  free_kernel_stack_frames_step free_kernel_stack_frames_done

lemma create_user_process_eval:
  "\<exists>pcb s'. create_user_process test_config ''/kernel.bin''
      (boot_state [0x100000, 0x101000, 0x102000, 0x103000, 0x104000, 0x105000, 0x106000,
                   0x107000, 0x108000, 0x109000]
         (elf_image 0x08048000 [load_segment 0x08048000 0 4 4])) = Some (Some pcb, s') \<and>
      page_directory_phys pcb = 0x100000 \<and> pd_words s' 0x100000 1023 = 0x100203"
  by (simp add: eval_defs process_defs)

lemma eval_entry: "e_entry (ehdr_of (elf_image 0x08048000 [load_segment 0x08048000 0 4 4])) = 0x08048000"
  by (simp add: elf_defs)

text \<open>
  A process created from an executable with one segment and entry point \<open>0x08048000\<close>, with
  the selectors \<open>0x18\<close> and \<open>0x20\<close> and the user stack top \<open>0xC0000000\<close>.
\<close>

theorem create_user_process_iret_frame_witness:
  "\<exists>pcb s'. create_user_process test_config ''/kernel.bin''
      (boot_state [0x100000, 0x101000, 0x102000, 0x103000, 0x104000, 0x105000, 0x106000,
                   0x107000, 0x108000, 0x109000]
         (elf_image 0x08048000 [load_segment 0x08048000 0 4 4])) = Some (Some pcb, s') \<and>
      iret_frame s' (kernel_esp_for_switch pcb) = [0x08048000, 0x1B, 0x202, 0xC0000000, 0x23]"
proof -
  let ?elf = "elf_image 0x08048000 [load_segment 0x08048000 0 4 4]"
  let ?st = "boot_state [0x100000, 0x101000, 0x102000, 0x103000, 0x104000, 0x105000, 0x106000,
                   0x107000, 0x108000, 0x109000] ?elf"
  obtain pcb s' where e: "create_user_process test_config ''/kernel.bin'' ?st = Some (Some pcb, s')"
    using create_user_process_eval by blast
  have rf: "read_file ''/kernel.bin'' ?st = Some ?elf"
    by (rule eval_read_file) (simp add: elf_defs)
  from create_user_process_iret_frame [OF e] rf eval_entry
  have "iret_frame s' (kernel_esp_for_switch pcb) = [0x08048000, 0x1B, 0x202, 0xC0000000, 0x23]"
    by (auto simp: test_config_def)
  with e show ?thesis by blast
qed

text \<open>The same process: its directory is the frame \<open>0x100000\<close>.\<close>

theorem create_user_process_recursive_pde_witness:
  "\<exists>pcb s'. create_user_process test_config ''/kernel.bin''
      (boot_state [0x100000, 0x101000, 0x102000, 0x103000, 0x104000, 0x105000, 0x106000,
                   0x107000, 0x108000, 0x109000]
         (elf_image 0x08048000 [load_segment 0x08048000 0 4 4])) = Some (Some pcb, s') \<and>
      pd_words s' (page_directory_phys pcb) RECURSIVE_PDE_INDEX =
        (page_directory_phys pcb AND PAGING_ADDR_MASK) OR PAGE_PRESENT OR PAGE_RW OR PAGE_NX_BIT"
proof -
  obtain pcb s' where e: "create_user_process test_config ''/kernel.bin''
      (boot_state [0x100000, 0x101000, 0x102000, 0x103000, 0x104000, 0x105000, 0x106000,
                   0x107000, 0x108000, 0x109000]
         (elf_image 0x08048000 [load_segment 0x08048000 0 4 4])) = Some (Some pcb, s')"
    using create_user_process_eval by blast
  from create_user_process_recursive_pde [OF e] e show ?thesis by blast
qed

text \<open>
  Claim C4 as stated fails: the last entry of the directory at \<open>0x100000\<close> is \<open>0x100203\<close>,
  which has bit 9 (\<open>PAGE_NX_BIT\<close>) set besides the address and the present and read/write
  flags.
\<close>

theorem create_user_process_recursive_pde_has_nx:
  "\<exists>pcb s'. create_user_process test_config ''/kernel.bin''
      (boot_state [0x100000, 0x101000, 0x102000, 0x103000, 0x104000, 0x105000, 0x106000,
                   0x107000, 0x108000, 0x109000]
         (elf_image 0x08048000 [load_segment 0x08048000 0 4 4])) = Some (Some pcb, s') \<and>
      page_directory_phys pcb = 0x100000 \<and>
      pd_words s' (page_directory_phys pcb) RECURSIVE_PDE_INDEX = 0x100203 \<and>
      pd_words s' (page_directory_phys pcb) RECURSIVE_PDE_INDEX \<noteq>
        page_directory_phys pcb OR PAGE_PRESENT OR PAGE_RW"
proof -
  obtain pcb s' where e: "create_user_process test_config ''/kernel.bin''
      (boot_state [0x100000, 0x101000, 0x102000, 0x103000, 0x104000, 0x105000, 0x106000,
                   0x107000, 0x108000, 0x109000]
         (elf_image 0x08048000 [load_segment 0x08048000 0 4 4])) = Some (Some pcb, s')"
    and p: "page_directory_phys pcb = 0x100000" "pd_words s' 0x100000 1023 = 0x100203"
    using create_user_process_eval by blast
  have "(0x100203 :: u32) \<noteq> 0x100000 OR PAGE_PRESENT OR PAGE_RW"
    by (simp add: PAGE_PRESENT_def PAGE_RW_def)
  with e p show ?thesis by (auto simp: RECURSIVE_PDE_INDEX_def)
qed

lemma paging_free_user_space_empty:
  assumes "\<forall>i. i < KERNEL_PDE_INDEX \<longrightarrow> pd_words s pd i AND PAGE_PRESENT = 0"
  shows "paging_free_user_space pd s = s"
proof -
  have u: "unat KERNEL_PDE_INDEX = 768" by (simp add: KERNEL_PDE_INDEX_def PDE_INDEX_def)
  have lt: "(of_nat k :: u32) < KERNEL_PDE_INDEX" if "k < 768" for k
  proof -
    from that have "unat (of_nat k :: u32) = k" by (simp add: unat_of_nat32)
    with that show ?thesis by (simp add: word_less_nat_alt u)
  qed
  have "fold (free_user_pde pd) (map of_nat xs) s = s" if "\<forall>k \<in> set xs. k < 768" for xs :: "nat list"
    using that
  proof (induction xs)
    case Nil
    then show ?case by simp
  next
    case (Cons k xs)
    then have "k < 768" by simp
    from assms lt [OF this] have "free_user_pde pd (of_nat k) s = s"
      by (simp add: free_user_pde_def Let_def)
    with Cons show ?case by simp
  qed
  then show ?thesis by (simp add: paging_free_user_space_def u)
qed


lemma create_user_process_eval_mm_failure:
  "\<exists>s'. create_user_process test_config ''/kernel.bin''
      ((boot_state [0x100000, 0x101000, 0x102000, 0x103000, 0x104000, 0x105000]
         (elf_image 0x08048000 [load_segment 0x08048000 0 4 4]))
       \<lparr>kmalloc_script := [True, True, False]\<rparr>) = Some (None, s') \<and>
      trace s' =
        [EvKmalloc (ObjPcb 1) True, EvFrameAlloc 0x100000, EvTempMap 0x100000 True, EvTempUnmap,
         EvKmalloc ObjFrameList True, EvFrameAlloc 0x101000, EvFrameAlloc 0x102000,
         EvMapSingle 0x1000 0xE0000000 0x101000 0x203 MapOK,
         EvMapSingle 0x1000 0xE0001000 0x102000 0x203 MapOK, EvKfree ObjFrameList,
         EvTssSet 0xE0002000, EvCreateMm 0x100000 False,
         EvGetPhys 0x1000 0xE0000000 (Some 0x101000), EvPutFrame 0x101000,
         EvGetPhys 0x1000 0xE0001000 (Some 0x102000), EvPutFrame 0x102000,
         EvUnmapRange 0x1000 0xE0000000 0x2000, EvPutFrame 0x100000, EvKfree (ObjPcb 1)]"
  by (simp add: eval_defs process_defs)


lemma create_user_process_eval_load_failure:
  "\<exists>s'. create_user_process test_config ''/kernel.bin''
      (boot_state [0x100000, 0x101000, 0x102000, 0x103000, 0x104000, 0x105000]
         (elf_image 0 [load_segment 0x08048000 0 4 4])) = Some (None, s') \<and>
      trace s' =
        [EvKmalloc (ObjPcb 1) True, EvFrameAlloc 0x100000, EvTempMap 0x100000 True, EvTempUnmap,
         EvKmalloc ObjFrameList True, EvFrameAlloc 0x101000, EvFrameAlloc 0x102000,
         EvMapSingle 0x1000 0xE0000000 0x101000 0x203 MapOK,
         EvMapSingle 0x1000 0xE0001000 0x102000 0x203 MapOK, EvKfree ObjFrameList,
         EvTssSet 0xE0002000, EvCreateMm 0x100000 True, EvKfree ObjFileData,
         EvDestroyMm 0x100000,
         EvGetPhys 0x1000 0xE0000000 (Some 0x101000), EvPutFrame 0x101000,
         EvGetPhys 0x1000 0xE0001000 (Some 0x102000), EvPutFrame 0x102000,
         EvUnmapRange 0x1000 0xE0000000 0x2000, EvPutFrame 0x100000, EvKfree (ObjPcb 1)]"
  by (simp add: eval_defs process_defs destroy_mm_def paging_free_user_space_empty)


lemma tss_writes_no_tss: "(\<And>e. e \<in> set evs \<Longrightarrow> ev_tss e = []) \<Longrightarrow> tss_writes evs = []"
  by (induction evs) (simp_all add: tss_writes_def)

lemma tss_writes_kernel_stack_events [simp]: "tss_writes (kernel_stack_events kpd base fs) = []"
  by (rule tss_writes_no_tss) (auto simp: kernel_stack_events_def)

lemma tss_writes_stack_page_events [simp]:
  "tss_writes (concat (map (stack_page_events sd) vs)) = []"
  by (rule tss_writes_no_tss) (auto simp: stack_page_events_def split: option.splits if_splits)


end
